theory Spec2Isabelle
  imports Main "HOL-Library.Multiset" "HOL-Library.AList"
begin

section \<open>dca2csv: the descriptor model and the converter\<close>

text \<open>
  A shallow embedding of \<^verbatim>\<open>dca2csv.py\<close> (Python 2). The classes \<^verbatim>\<open>FieldType\<close> and
  \<^verbatim>\<open>CoreFileType\<close> become records built by functions that return an exception or the
  object; \<^verbatim>\<open>writecsv\<close> becomes a function from the files it reads to the records it
  writes and the exception, if any, that ended the run.

  The standard-library functions the module calls are transcribed from CPython 2.7:
  \<^verbatim>\<open>urlparse.urlparse\<close>, \<^verbatim>\<open>int\<close> on a string, \<^verbatim>\<open>list.sort\<close>,
  the \<^verbatim>\<open>xml.dom.minidom\<close> accessors, \<^verbatim>\<open>csv.DictReader\<close> and \<^verbatim>\<open>csv.DictWriter\<close>.
  Two parsers are taken as given: the XML text is represented by the node tree that
  \<^verbatim>\<open>parseString\<close> returns for it, and a source file by the sequence of rows that
  \<^verbatim>\<open>csv.reader\<close> yields for it. Strings are byte strings.
\<close>

subsection \<open>Exceptions\<close>

datatype error =
    AttributeError
  | IndexError
  | ValueError
  | TypeError
  | IOError
  | ExpatError
  | StopIteration
  | CsvError

subsection \<open>String operations of Python\<close>

text \<open>\<^verbatim>\<open>s.find(c)\<close> and \<^verbatim>\<open>s.find(c, start)\<close> for a one-character \<open>c\<close>: the least
  position at or after \<open>start\<close>, or \<open>-1\<close>.\<close>

definition find_from :: "char \<Rightarrow> string \<Rightarrow> nat \<Rightarrow> int" where
  "find_from c s start =
     (if c \<in> set (drop start s)
      then int (start + length (takeWhile (\<lambda>x. x \<noteq> c) (drop start s)))
      else - 1)"

definition find :: "char \<Rightarrow> string \<Rightarrow> int" where
  "find c s = find_from c s 0"

text \<open>\<^verbatim>\<open>s.rfind(c)\<close> where \<open>c\<close> occurs in \<open>s\<close>: the greatest position.\<close>

definition rfind :: "char \<Rightarrow> string \<Rightarrow> nat" where
  "rfind c s = length s - 1 - length (takeWhile (\<lambda>x. x \<noteq> c) (rev s))"

text \<open>\<^verbatim>\<open>s.split(c)\<close>: the segments between the occurrences of \<open>c\<close>; never the empty
  list.\<close>

fun split :: "char \<Rightarrow> string \<Rightarrow> string list" where
  "split c [] = [[]]"
| "split c (x # xs) =
     (if x = c then [] # split c xs
      else (case split c xs of [] \<Rightarrow> [[x]] | w # ws \<Rightarrow> (x # w) # ws))"

text \<open>\<^verbatim>\<open>s.split(c, 1)\<close> where \<open>c\<close> occurs in \<open>s\<close>: what stands before and after the first
  occurrence.\<close>

definition split1 :: "char \<Rightarrow> string \<Rightarrow> string \<times> string" where
  "split1 c s = (takeWhile (\<lambda>x. x \<noteq> c) s, drop 1 (dropWhile (\<lambda>x. x \<noteq> c) s))"

definition lower_char :: "char \<Rightarrow> char" where
  "lower_char c =
     (if (65::nat) \<le> of_char c \<and> of_char c \<le> (90::nat)
      then char_of (of_char c + (32::nat)) else c)"

definition lower :: "string \<Rightarrow> string" where
  "lower s = map lower_char s"

definition isspace :: "char \<Rightarrow> bool" where
  "isspace c = (c \<in> set [CHR '' '', CHR 0x09, CHR 0x0A, CHR 0x0B, CHR 0x0C, CHR 0x0D])"

definition isdigit :: "char \<Rightarrow> bool" where
  "isdigit c = (c \<in> set ''0123456789'')"

subsection \<open>\<^verbatim>\<open>urlparse\<close>\<close>

definition scheme_chars :: string where
  "scheme_chars =
     ''abcdefghijklmnopqrstuvwxyzABCDEFGHIJKLMNOPQRSTUVWXYZ0123456789+-.''"

definition uses_params :: "string list" where
  "uses_params =
     [''ftp'', ''hdl'', ''prospero'', ''http'', ''imap'', ''https'', ''shttp'', ''rtsp'',
      ''rtspu'', ''sip'', ''sips'', ''mms'', '''', ''sftp'', ''tel'']"

text \<open>\<^verbatim>\<open>_splitnetloc(url, start)\<close>: the network location ends at the first of
  \<^verbatim>\<open>/ ? #\<close>.\<close>

definition splitnetloc :: "string \<Rightarrow> nat \<Rightarrow> string \<times> string" where
  "splitnetloc url start =
     (let delim = foldl (\<lambda>delim c.
                     let wdelim = find_from c url start
                     in if wdelim \<ge> 0 then min delim (nat wdelim) else delim)
                   (length url) ''/?#''
      in (take (delim - start) (drop start url), drop delim url))"

record SplitResult =
  sr_scheme :: string
  sr_netloc :: string
  sr_path :: string
  sr_query :: string
  sr_fragment :: string

text \<open>The part of \<^verbatim>\<open>urlsplit\<close> after the scheme is known: network location, fragment,
  query. A network location with one square bracket and not the other is refused.\<close>

definition urlsplit_rest :: "string \<Rightarrow> string \<Rightarrow> error + SplitResult" where
  "urlsplit_rest scheme url0 =
     (let (netloc, url1) =
            (if take 2 url0 = ''//'' then splitnetloc url0 2 else ('''', url0))
      in if (CHR ''['' \<in> set netloc \<and> CHR '']'' \<notin> set netloc) \<or>
            (CHR '']'' \<in> set netloc \<and> CHR ''['' \<notin> set netloc)
         then Inl ValueError
         else
           let (url2, fragment) =
                 (if CHR ''#'' \<in> set url1 then split1 (CHR ''#'') url1 else (url1, ''''));
               (url3, query) =
                 (if CHR ''?'' \<in> set url2 then split1 (CHR ''?'') url2 else (url2, ''''))
           in Inr \<lparr> sr_scheme = scheme, sr_netloc = netloc, sr_path = url3,
                    sr_query = query, sr_fragment = fragment \<rparr>)"

text \<open>\<^verbatim>\<open>urlsplit(url)\<close>. What stands before the first colon is the scheme when it is
  \<^verbatim>\<open>http\<close>, or when it is made of scheme characters and what follows is not a port
  number.\<close>

definition urlsplit :: "string \<Rightarrow> error + SplitResult" where
  "urlsplit url =
     (let i = find (CHR '':'') url
      in if i > 0 then
           (if take (nat i) url = ''http''
            then urlsplit_rest (lower (take (nat i) url)) (drop (nat i + 1) url)
            else if \<forall>c \<in> set (take (nat i) url). c \<in> set scheme_chars
            then
              (let rest = drop (nat i + 1) url
               in if rest = [] \<or> (\<exists>c \<in> set rest. c \<notin> set ''0123456789'')
                  then urlsplit_rest (lower (take (nat i) url)) rest
                  else urlsplit_rest '''' url)
            else urlsplit_rest '''' url)
         else urlsplit_rest '''' url)"

text \<open>\<^verbatim>\<open>_splitparams(url)\<close>, called when \<open>;\<close> occurs in \<open>url\<close>: the parameters of the
  last path segment are cut off. Only the first component is kept here.\<close>

definition splitparams :: "string \<Rightarrow> string" where
  "splitparams url =
     (if CHR ''/'' \<in> set url
      then (let i = find_from (CHR '';'') url (rfind (CHR ''/'') url)
            in if i < 0 then url else take (nat i) url)
      else take (nat (find (CHR '';'') url)) url)"

text \<open>\<^verbatim>\<open>urlparse(url).path\<close>. \<^verbatim>\<open>urlparse(None)\<close> raises \<^verbatim>\<open>AttributeError\<close>: \<^verbatim>\<open>None\<close>
  has no \<^verbatim>\<open>find\<close>.\<close>

definition urlparse_path :: "string option \<Rightarrow> error + string" where
  "urlparse_path term =
     (case term of
        None \<Rightarrow> Inl AttributeError
      | Some url \<Rightarrow>
          (case urlsplit url of
             Inl e \<Rightarrow> Inl e
           | Inr r \<Rightarrow>
               if sr_scheme r \<in> set uses_params \<and> CHR '';'' \<in> set (sr_path r)
               then Inr (splitparams (sr_path r))
               else Inr (sr_path r)))"

subsection \<open>\<^verbatim>\<open>int\<close>\<close>

text \<open>\<^verbatim>\<open>int(s)\<close> on a string, base 10, as \<^verbatim>\<open>PyInt_FromString\<close> and \<^verbatim>\<open>PyOS_strtol\<close> read
  it: white space, an optional sign, white space, at least one digit, white space.
  Anything else is a \<^verbatim>\<open>ValueError\<close>.\<close>

definition digit_val :: "char \<Rightarrow> int" where
  "digit_val c = int (of_char c) - 48"

definition digits_val :: "string \<Rightarrow> int" where
  "digits_val ds = foldl (\<lambda>acc d. 10 * acc + digit_val d) 0 ds"

text \<open>The optional sign at the head of a string, and what follows it.\<close>

definition split_sign :: "string \<Rightarrow> bool \<times> string" where
  "split_sign s =
     (case s of
        [] \<Rightarrow> (False, s)
      | c # cs \<Rightarrow> if c = CHR ''-'' then (True, cs)
                 else if c = CHR ''+'' then (False, cs)
                 else (False, s))"

definition int_of_str :: "string \<Rightarrow> error + int" where
  "int_of_str s =
     (let (neg, s2) = split_sign (dropWhile isspace s);
          s3 = dropWhile isspace s2;
          ds = takeWhile isdigit s3;
          rest = dropWhile isspace (dropWhile isdigit s3)
      in if ds = [] \<or> rest \<noteq> [] then Inl ValueError
         else Inr (if neg then - digits_val ds else digits_val ds))"

subsection \<open>\<^verbatim>\<open>FieldType\<close>\<close>

text \<open>The values the \<^verbatim>\<open>index\<close> argument takes: \<^verbatim>\<open>None\<close>, a string (from the
  descriptor's attribute) or an integer (as in the tests).\<close>

datatype pyval = PyNone | PyStr string | PyInt int

text \<open>The attributes \<^verbatim>\<open>_term\<close>, \<^verbatim>\<open>_index\<close> and \<^verbatim>\<open>_default\<close>.\<close>

record FieldType =
  f_term :: string
  f_index :: "int option"
  f_default :: "string option"

definition py_int :: "pyval \<Rightarrow> error + int" where
  "py_int v =
     (case v of
        PyNone \<Rightarrow> Inl TypeError
      | PyStr s \<Rightarrow> int_of_str s
      | PyInt i \<Rightarrow> Inr i)"

text \<open>\<^verbatim>\<open>FieldType.__init__(term, index, default)\<close>.\<close>

definition FieldType_init :: "string option \<Rightarrow> pyval \<Rightarrow> string option \<Rightarrow> error + FieldType" where
  "FieldType_init term index dflt =
     (case urlparse_path term of
        Inl e \<Rightarrow> Inl e
      | Inr path \<Rightarrow>
          if index = PyStr '''' \<or> index = PyNone
          then Inr \<lparr> f_term = last (split (CHR ''/'') path), f_index = None,
                     f_default = dflt \<rparr>
          else (case py_int index of
                  Inl e \<Rightarrow> Inl e
                | Inr i \<Rightarrow> Inr \<lparr> f_term = last (split (CHR ''/'') path), f_index = Some i,
                                  f_default = dflt \<rparr>))"

text \<open>\<^verbatim>\<open>FieldType.__cmp__\<close> compares the two \<^verbatim>\<open>index\<close> values with Python 2's order, in
  which \<^verbatim>\<open>None\<close> is below every integer.\<close>

fun py_less :: "int option \<Rightarrow> int option \<Rightarrow> bool" where
  "py_less None None = False"
| "py_less None (Some b) = True"
| "py_less (Some a) None = False"
| "py_less (Some a) (Some b) = (a < b)"

definition FieldType_cmp :: "FieldType \<Rightarrow> FieldType \<Rightarrow> int" where
  "FieldType_cmp self other =
     (if py_less (f_index other) (f_index self) then 1
      else if py_less (f_index self) (f_index other) then - 1
      else 0)"

text \<open>\<^verbatim>\<open>list.sort()\<close> is a stable sort that only asks whether one element is less than
  another, which for a \<^verbatim>\<open>FieldType\<close> is \<^verbatim>\<open>__cmp__\<close> giving a negative number. The stable
  sort is written as an insertion sort.\<close>

fun insort_cmp :: "FieldType \<Rightarrow> FieldType list \<Rightarrow> FieldType list" where
  "insort_cmp x [] = [x]"
| "insort_cmp x (y # ys) =
     (if FieldType_cmp y x < 0 then y # insort_cmp x ys else x # y # ys)"

definition sort_fields :: "FieldType list \<Rightarrow> FieldType list" where
  "sort_fields xs = foldr insort_cmp xs []"

subsection \<open>The document tree of \<^verbatim>\<open>xml.dom.minidom\<close>\<close>

text \<open>An element has a tag name, attributes and child nodes; \<open>Text\<close> stands for the
  nodes that carry \<^verbatim>\<open>data\<close>. A document is the list of its child nodes.\<close>

datatype node =
    Element string "(string \<times> string) list" "node list"
  | Text string

text \<open>\<^verbatim>\<open>getElementsByTagName(name)\<close>: the descendant elements of that name, in document
  order (\<^verbatim>\<open>_get_elements_by_tagName_helper\<close>, given the child nodes).\<close>

fun getElementsByTagName :: "node list \<Rightarrow> string \<Rightarrow> node list" where
  "getElementsByTagName [] name = []"
| "getElementsByTagName (Text d # ns) name = getElementsByTagName ns name"
| "getElementsByTagName (Element t attrs cs # ns) name =
     (if name = ''*'' \<or> t = name then [Element t attrs cs] else [])
     @ getElementsByTagName cs name @ getElementsByTagName ns name"

text \<open>\<^verbatim>\<open>getAttribute(attname)\<close>: the empty string when the attribute is absent.\<close>

fun getAttribute :: "node \<Rightarrow> string \<Rightarrow> string" where
  "getAttribute (Element t attrs cs) attname =
     (case map_of attrs attname of None \<Rightarrow> '''' | Some v \<Rightarrow> v)"
| "getAttribute (Text d) attname = ''''"

fun childNodes :: "node \<Rightarrow> node list" where
  "childNodes (Element t attrs cs) = cs"
| "childNodes (Text d) = []"

text \<open>\<^verbatim>\<open>x.childNodes[0].data\<close>: \<^verbatim>\<open>IndexError\<close> without a child, \<^verbatim>\<open>AttributeError\<close> when
  the first child is an element.\<close>

definition first_child_data :: "node \<Rightarrow> error + string" where
  "first_child_data x =
     (case childNodes x of
        [] \<Rightarrow> Inl IndexError
      | Text d # _ \<Rightarrow> Inr d
      | Element t attrs cs # _ \<Rightarrow> Inl AttributeError)"

text \<open>\<^verbatim>\<open>s or None\<close> and \<^verbatim>\<open>s or d\<close> for a string \<open>s\<close>.\<close>

definition or_None :: "string \<Rightarrow> string option" where
  "or_None s = (if s = '''' then None else Some s)"

definition or_else :: "string \<Rightarrow> string \<Rightarrow> string" where
  "or_else s d = (if s = '''' then d else s)"

text \<open>A list comprehension whose body can raise stops at the first exception.\<close>

fun map_raise :: "('a \<Rightarrow> error + 'b) \<Rightarrow> 'a list \<Rightarrow> error + 'b list" where
  "map_raise f [] = Inr []"
| "map_raise f (x # xs) =
     (case f x of
        Inl e \<Rightarrow> Inl e
      | Inr y \<Rightarrow> (case map_raise f xs of Inl e \<Rightarrow> Inl e | Inr ys \<Rightarrow> Inr (y # ys)))"

subsection \<open>\<^verbatim>\<open>CoreFileType\<close>\<close>

record CoreFileType =
  rowType :: string
  fieldsTerminatedBy :: string
  linesTerminatedBy :: string
  fieldsEnclosedBy :: string
  encoding :: string
  ignoreHeaderLines :: int
  dateFormat :: string
  locations :: "string list"
  fields_c :: "FieldType list"
  defaults :: "FieldType list"

text \<open>The \<^verbatim>\<open>FieldType\<close> built from one \<^verbatim>\<open>field\<close> element.\<close>

definition field_of_element :: "node \<Rightarrow> error + FieldType" where
  "field_of_element x =
     FieldType_init (or_None (getAttribute x ''term''))
       (case or_None (getAttribute x ''index'') of None \<Rightarrow> PyNone | Some s \<Rightarrow> PyStr s)
       (or_None (getAttribute x ''default''))"

text \<open>\<^verbatim>\<open>CoreFileType.__init__\<close>, given the document that \<^verbatim>\<open>parseString(metafile)\<close>
  returns. The statements run in the order of the source, so the first exception is
  the one raised.\<close>

definition CoreFileType_init :: "node list \<Rightarrow> error + CoreFileType" where
  "CoreFileType_init doc =
     (case getElementsByTagName doc ''core'' of
        [] \<Rightarrow> Inl IndexError
      | core # _ \<Rightarrow>
          (case int_of_str (getAttribute core ''ignoreHeaderLines'') of
             Inl e \<Rightarrow> Inl e
           | Inr n \<Rightarrow>
               (case map_raise first_child_data
                       (getElementsByTagName (childNodes core) ''location'') of
                  Inl e \<Rightarrow> Inl e
                | Inr locs \<Rightarrow>
                    (case map_raise field_of_element
                            (getElementsByTagName (childNodes core) ''field'') of
                       Inl e \<Rightarrow> Inl e
                     | Inr fs \<Rightarrow>
                         Inr \<lparr> rowType = getAttribute core ''rowType'',
                               fieldsTerminatedBy =
                                 or_else (getAttribute core ''fieldsTerminatedBy'') '','',
                               linesTerminatedBy =
                                 or_else (getAttribute core ''linesTerminatedBy'') [CHR 0x0A],
                               fieldsEnclosedBy =
                                 or_else (getAttribute core ''fieldsEnclosedBy'') [CHR 0x22],
                               encoding = getAttribute core ''encoding'',
                               ignoreHeaderLines = n,
                               dateFormat = getAttribute core ''dateFormat'',
                               locations = locs,
                               fields_c = sort_fields (filter (\<lambda>x. f_index x \<noteq> None) fs),
                               defaults = sort_fields (filter (\<lambda>x. f_index x = None) fs)
                             \<rparr>))))"

subsection \<open>\<^verbatim>\<open>csv.DictReader\<close>\<close>

text \<open>What \<^verbatim>\<open>csv.reader\<close> does at each call of \<^verbatim>\<open>next()\<close> on a source file: it yields a
  row, the list of the cells of one record (the empty list for a blank line), or it
  raises \<^verbatim>\<open>csv.Error\<close>. After the last item it raises \<^verbatim>\<open>StopIteration\<close>.\<close>

datatype reader_item = Row "string list" | Malformed

text \<open>The dictionary of one row: its entries under string keys, a cell being a string
  or \<^verbatim>\<open>None\<close>, and the entry under the key \<^verbatim>\<open>None\<close> (\<^verbatim>\<open>restkey\<close>), which holds the cells
  beyond the last field name when there are any.\<close>

record rowdict =
  entries :: "(string \<times> string option) list"
  restkey :: "string list option"

text \<open>The dictionary \<^verbatim>\<open>DictReader.next\<close> builds from a row: \<^verbatim>\<open>dict(zip(fieldnames, row))\<close>,
  then the surplus cells under \<^verbatim>\<open>restkey\<close>, or \<^verbatim>\<open>restval\<close> (\<^verbatim>\<open>None\<close>) for the names left
  over.\<close>

definition make_row :: "string list \<Rightarrow> string list \<Rightarrow> rowdict" where
  "make_row fieldnames row =
     (let d = AList.updates fieldnames (map Some row) [];
          lf = length fieldnames;
          lr = length row
      in if lf < lr then \<lparr> entries = d, restkey = Some (drop lf row) \<rparr>
         else if lf > lr
         then \<lparr> entries = fold (\<lambda>key d. AList.update key None d) (drop lr fieldnames) d,
                 restkey = None \<rparr>
         else \<lparr> entries = d, restkey = None \<rparr>)"

text \<open>\<^verbatim>\<open>DictReader.next()\<close> on the items the reader has left: blank rows are passed
  over.\<close>

fun dr_next :: "string list \<Rightarrow> reader_item list \<Rightarrow> error + (rowdict \<times> reader_item list)" where
  "dr_next fieldnames [] = Inl StopIteration"
| "dr_next fieldnames (Malformed # rest) = Inl CsvError"
| "dr_next fieldnames (Row row # rest) =
     (if row = [] then dr_next fieldnames rest
      else Inr (make_row fieldnames row, rest))"

subsection \<open>\<^verbatim>\<open>csv.DictWriter\<close>\<close>

text \<open>The writer of the \<^verbatim>\<open>excel\<close> dialect with \<^verbatim>\<open>QUOTE_ALL\<close>: every field is put between
  double quotes, a double quote inside it doubled; fields are joined by commas and
  the record ends with carriage return and line feed. \<^verbatim>\<open>None\<close> is written as the empty
  string.\<close>

definition quote_field :: "string \<Rightarrow> string" where
  "quote_field s =
     [CHR 0x22] @ concat (map (\<lambda>c. if c = CHR 0x22 then [c, c] else [c]) s) @ [CHR 0x22]"

fun join :: "string \<Rightarrow> string list \<Rightarrow> string" where
  "join sep [] = ''''"
| "join sep [x] = x"
| "join sep (x # y # ys) = x @ sep @ join sep (y # ys)"

definition writer_writerow :: "string option list \<Rightarrow> string" where
  "writer_writerow cells =
     join '','' (map (\<lambda>v. quote_field (case v of None \<Rightarrow> '''' | Some s \<Rightarrow> s)) cells)
     @ [CHR 0x0D, CHR 0x0A]"

text \<open>\<^verbatim>\<open>DictWriter._dict_to_list\<close> with \<^verbatim>\<open>extrasaction = "raise"\<close> and \<^verbatim>\<open>restval = ""\<close>.\<close>

definition dict_to_list :: "string list \<Rightarrow> rowdict \<Rightarrow> error + string option list" where
  "dict_to_list fieldnames rowdict =
     (let wrong_fields =
            filter (\<lambda>k. k \<notin> set (map Some fieldnames))
              (map (Some \<circ> fst) (entries rowdict)
               @ (case restkey rowdict of None \<Rightarrow> [] | Some _ \<Rightarrow> [None]))
      in if wrong_fields \<noteq> [] then Inl ValueError
         else Inr (map (\<lambda>key. case map_of (entries rowdict) key of
                                 None \<Rightarrow> Some '''' | Some v \<Rightarrow> v) fieldnames))"

text \<open>\<^verbatim>\<open>dw.writerow(rowdict)\<close>: the destination is the list of the records written so
  far.\<close>

definition dw_writerow :: "string list \<Rightarrow> rowdict \<Rightarrow> string list \<Rightarrow> error + string list" where
  "dw_writerow fieldnames rowdict dw =
     (case dict_to_list fieldnames rowdict of
        Inl e \<Rightarrow> Inl e
      | Inr cells \<Rightarrow> Inr (dw @ [writer_writerow cells]))"

subsection \<open>\<^verbatim>\<open>writecsv\<close>\<close>

text \<open>What the run reads: for the path of a metafile, the document \<^verbatim>\<open>parseString\<close>
  returns for its text, or the exception of \<^verbatim>\<open>open\<close> or \<^verbatim>\<open>parseString\<close>; whether a
  destination can be opened for writing; and for a location with the delimiter, line
  terminator and quote character of the descriptor and the value of
  \<^verbatim>\<open>skipinitialspace\<close>, the items the reader yields, or the exception of \<^verbatim>\<open>open\<close> or of
  the reader's construction. \<^verbatim>\<open>writecsv\<close> builds every reader with
  \<^verbatim>\<open>skipinitialspace=True\<close>: white space that follows a delimiter is not part of the
  cell the reader yields.\<close>

record world =
  metafiles :: "string \<Rightarrow> error + node list"
  writable :: "string \<Rightarrow> bool"
  readers :: "string \<Rightarrow> string \<Rightarrow> string \<Rightarrow> string \<Rightarrow> bool
                \<Rightarrow> error + reader_item list"

text \<open>\<^verbatim>\<open>for x in range(0, core.ignoreHeaderLines): dr.next()\<close>. An exception of
  \<^verbatim>\<open>dr.next()\<close>, \<^verbatim>\<open>StopIteration\<close> too, leaves the loop and the function.\<close>

fun skip_lines :: "nat \<Rightarrow> string list \<Rightarrow> reader_item list \<Rightarrow> error + reader_item list" where
  "skip_lines 0 fieldnames items = Inr items"
| "skip_lines (Suc n) fieldnames items =
     (case dr_next fieldnames items of
        Inl e \<Rightarrow> Inl e
      | Inr (row, rest) \<Rightarrow> skip_lines n fieldnames rest)"

text \<open>\<^verbatim>\<open>for d in core.defaults: row[d.term] = d.default\<close>.\<close>

definition add_defaults :: "FieldType list \<Rightarrow> rowdict \<Rightarrow> rowdict" where
  "add_defaults ds row =
     fold (\<lambda>d row. row\<lparr> entries := AList.update (f_term d) (f_default d) (entries row) \<rparr>)
       ds row"

text \<open>\<^verbatim>\<open>for row in dr\<close>: the loop ends when \<^verbatim>\<open>dr.next()\<close> raises \<^verbatim>\<open>StopIteration\<close>; any
  other exception ends the run. The result is the destination and the exception, if
  any.\<close>

function write_rows ::
  "CoreFileType \<Rightarrow> string list \<Rightarrow> reader_item list \<Rightarrow> string list
     \<Rightarrow> string list \<times> error option" where
  "write_rows core fieldnames items dw =
     (case dr_next fieldnames items of
        Inl e \<Rightarrow> (dw, if e = StopIteration then None else Some e)
      | Inr (row, rest) \<Rightarrow>
          (case dw_writerow fieldnames (add_defaults (defaults core) row) dw of
             Inl e \<Rightarrow> (dw, Some e)
           | Inr dw' \<Rightarrow> write_rows core fieldnames rest dw'))"
  by pat_completeness auto
termination
proof (relation "measure (\<lambda>(core, fieldnames, items, dw). length items)")
  show "wf (measure (\<lambda>(core, fieldnames, items, dw). length items))" by simp
next
  fix core :: CoreFileType and fieldnames items x row rest and dw dw' :: "string list"
  assume "dr_next fieldnames items = Inr x" and "(row, rest) = x"
  then have "dr_next fieldnames items = Inr (row, rest)" by simp
  then have "length rest < length items"
    by (induction fieldnames items rule: dr_next.induct) (auto split: if_splits)
  then show "((core, fieldnames, rest, dw'), (core, fieldnames, items, dw))
               \<in> measure (\<lambda>(core, fieldnames, items, dw). length items)"
    by simp
qed

declare write_rows.simps [simp del]

text \<open>\<^verbatim>\<open>for location in core.locations\<close>: open the source, skip the header lines, write
  the rows.\<close>

fun write_locations ::
  "world \<Rightarrow> CoreFileType \<Rightarrow> string list \<Rightarrow> string list \<Rightarrow> string list
     \<Rightarrow> string list \<times> error option" where
  "write_locations w core fieldnames [] dw = (dw, None)"
| "write_locations w core fieldnames (location # ls) dw =
     (case readers w location (fieldsTerminatedBy core) (linesTerminatedBy core)
             (fieldsEnclosedBy core) True of
        Inl e \<Rightarrow> (dw, Some e)
      | Inr items \<Rightarrow>
          (case skip_lines (nat (ignoreHeaderLines core)) fieldnames items of
             Inl e \<Rightarrow> (dw, Some e)
           | Inr rest \<Rightarrow>
               (case write_rows core fieldnames rest dw of
                  (dw', Some e) \<Rightarrow> (dw', Some e)
                | (dw', None) \<Rightarrow> write_locations w core fieldnames ls dw')))"

text \<open>The part of \<^verbatim>\<open>writecsv\<close> after the descriptor is parsed: the field names, the
  writer, the header row, the locations.\<close>

definition fieldnames_of :: "CoreFileType \<Rightarrow> string list" where
  "fieldnames_of core =
     (let field_terms = map f_term (fields_c core);
          default_field_terms = map f_term (defaults core)
      in field_terms @ default_field_terms)"

definition header_dict :: "string list \<Rightarrow> rowdict" where
  "header_dict fieldnames =
     \<lparr> entries = AList.updates fieldnames (map Some fieldnames) [], restkey = None \<rparr>"

definition convert :: "world \<Rightarrow> CoreFileType \<Rightarrow> string \<Rightarrow> string list \<times> error option" where
  "convert w core destination =
     (let fieldnames = fieldnames_of core
      in if \<not> writable w destination then ([], Some IOError)
         else (case dw_writerow fieldnames (header_dict fieldnames) [] of
                 Inl e \<Rightarrow> ([], Some e)
               | Inr dw \<Rightarrow> write_locations w core fieldnames (locations core) dw))"

text \<open>\<^verbatim>\<open>writecsv(metafile, destination)\<close>: the records written to the destination, and
  the exception that ended the run, if any.\<close>

definition writecsv :: "world \<Rightarrow> string \<Rightarrow> string \<Rightarrow> string list \<times> error option" where
  "writecsv w metafile destination =
     (case metafiles w metafile of
        Inl e \<Rightarrow> ([], Some e)
      | Inr doc \<Rightarrow>
          (case CoreFileType_init doc of
             Inl e \<Rightarrow> ([], Some e)
           | Inr core \<Rightarrow> convert w core destination))"

subsection \<open>Notions used in the statements\<close>

text \<open>The non-blank records of a source, in order: the rows \<^verbatim>\<open>DictReader\<close> returns when
  the reader raises no error.\<close>

fun records :: "reader_item list \<Rightarrow> string list list" where
  "records [] = []"
| "records (Malformed # rest) = records rest"
| "records (Row row # rest) = (if row = [] then records rest else row # records rest)"

text \<open>The cells \<^verbatim>\<open>writecsv\<close> hands to the writer for a record: the dictionary of the
  reader, the defaults set, listed by \<^verbatim>\<open>_dict_to_list\<close>; and the record written.\<close>

definition row_cells :: "string list \<Rightarrow> FieldType list \<Rightarrow> string list \<Rightarrow> string option list" where
  "row_cells fieldnames ds row =
     (case dict_to_list fieldnames (add_defaults ds (make_row fieldnames row)) of
        Inl e \<Rightarrow> []
      | Inr cells \<Rightarrow> cells)"

definition data_line :: "string list \<Rightarrow> FieldType list \<Rightarrow> string list \<Rightarrow> string" where
  "data_line fieldnames ds row = writer_writerow (row_cells fieldnames ds row)"

text \<open>The items the reader yields for a location of the descriptor; none when the
  location cannot be read.\<close>

definition source_items :: "world \<Rightarrow> CoreFileType \<Rightarrow> string \<Rightarrow> reader_item list" where
  "source_items w core location =
     (case readers w location (fieldsTerminatedBy core) (linesTerminatedBy core)
             (fieldsEnclosedBy core) True of
        Inl e \<Rightarrow> []
      | Inr items \<Rightarrow> items)"

text \<open>The data rows of a whole run that meets no exception: for each location in
  turn, one record for each non-blank record after the skipped ones.\<close>

definition all_data_lines :: "world \<Rightarrow> CoreFileType \<Rightarrow> string list \<Rightarrow> string list" where
  "all_data_lines w core locs =
     concat (map (\<lambda>location.
                    map (data_line (fieldnames_of core) (defaults core))
                      (drop (nat (ignoreHeaderLines core))
                         (records (source_items w core location))))
               locs)"

text \<open>A location whose processing meets no exception: it can be read, the reader
  raises no error, it has at least as many non-blank records as are skipped, and no
  record after them has more cells than there are field names.\<close>

definition location_ok :: "world \<Rightarrow> CoreFileType \<Rightarrow> string \<Rightarrow> bool" where
  "location_ok w core location =
     (case readers w location (fieldsTerminatedBy core) (linesTerminatedBy core)
             (fieldsEnclosedBy core) True of
        Inl e \<Rightarrow> False
      | Inr items \<Rightarrow>
          Malformed \<notin> set items \<and>
          nat (ignoreHeaderLines core) \<le> length (records items) \<and>
          list_all (\<lambda>row. length row \<le> length (fieldnames_of core))
            (drop (nat (ignoreHeaderLines core)) (records items)))"

text \<open>Small descriptors and worlds for concrete runs: a descriptor with the given
  \<^verbatim>\<open>ignoreHeaderLines\<close>, locations and \<^verbatim>\<open>field\<close> elements, and a world in which every
  metafile holds the given document and every location yields the given items.\<close>

definition core_doc :: "string \<Rightarrow> string list \<Rightarrow> node list \<Rightarrow> node list" where
  "core_doc skip locs field_elements =
     [Element ''archive'' []
        [Element ''core'' [(''ignoreHeaderLines'', skip)]
           (Element ''files'' [] (map (\<lambda>l. Element ''location'' [] [Text l]) locs)
            # field_elements)]]"

definition single_source_world :: "node list \<Rightarrow> reader_item list \<Rightarrow> world" where
  "single_source_world doc items =
     \<lparr> metafiles = (\<lambda>path. Inr doc),
       writable = (\<lambda>path. True),
       readers = (\<lambda>location delimiter lineterminator quotechar skipinitialspace.
                    Inr items) \<rparr>"

subsection \<open>An example run\<close>

text \<open>A descriptor with two locations, one header line to skip, two positional fields
  listed out of order and two default fields; and two tab-delimited sources, the first
  with a blank line.\<close>

definition example_doc :: "node list" where
  "example_doc =
     [Element ''archive'' []
        [Element ''core''
           [(''rowType'', ''http://rs.tdwg.org/dwc/terms/Taxon''),
            (''fieldsTerminatedBy'', [CHR 0x09]),
            (''ignoreHeaderLines'', ''1'')]
           [Element ''files'' []
              [Element ''location'' [] [Text ''taxa1.txt''],
               Element ''location'' [] [Text ''taxa2.txt'']],
            Element ''field''
              [(''index'', ''1''), (''term'', ''http://rs.tdwg.org/dwc/terms/taxonID'')] [],
            Element ''field''
              [(''term'', ''http://rs.tdwg.org/dwc/terms/basisOfRecord''),
               (''default'', ''HumanObservation'')] [],
            Element ''field''
              [(''index'', ''0''),
               (''term'', ''http://rs.tdwg.org/dwc/terms/scientificName'')] [],
            Element ''field''
              [(''term'', ''http://purl.org/dc/terms/language''), (''default'', ''en'')] []]]]"

definition example_core :: CoreFileType where
  "example_core =
     \<lparr> rowType = ''http://rs.tdwg.org/dwc/terms/Taxon'',
       fieldsTerminatedBy = [CHR 0x09],
       linesTerminatedBy = [CHR 0x0A],
       fieldsEnclosedBy = [CHR 0x22],
       encoding = '''',
       ignoreHeaderLines = 1,
       dateFormat = '''',
       locations = [''taxa1.txt'', ''taxa2.txt''],
       fields_c =
         [\<lparr> f_term = ''scientificName'', f_index = Some 0, f_default = None \<rparr>,
          \<lparr> f_term = ''taxonID'', f_index = Some 1, f_default = None \<rparr>],
       defaults =
         [\<lparr> f_term = ''basisOfRecord'', f_index = None,
             f_default = Some ''HumanObservation'' \<rparr>,
          \<lparr> f_term = ''language'', f_index = None, f_default = Some ''en'' \<rparr>] \<rparr>"

definition example_taxa1 :: "reader_item list" where
  "example_taxa1 =
     [Row [''scientificName'', ''taxonID''],
      Row [''Panthera leo'', ''T1''],
      Row [],
      Row [''Panthera tigris'', ''T2'']]"

definition example_taxa2 :: "reader_item list" where
  "example_taxa2 = [Row [''name'', ''id''], Row [''Felis catus'', ''T3'']]"

definition example_world :: world where
  "example_world =
     \<lparr> metafiles = (\<lambda>path. if path = ''meta.xml'' then Inr example_doc else Inl IOError),
       writable = (\<lambda>path. True),
       readers = (\<lambda>location delimiter lineterminator quotechar skipinitialspace.
                    if location = ''taxa1.txt'' then Inr example_taxa1
                    else if location = ''taxa2.txt'' then Inr example_taxa2
                    else Inl IOError) \<rparr>"

section \<open>Properties\<close>

subsection \<open>Field construction\<close>

text \<open>C10. For every term, constructing a field with the empty string as index gives
  the same result as constructing it with no index: when the constructor returns a
  field, its index is absent, and the partition of \<^verbatim>\<open>CoreFileType.__init__\<close> puts it among
  the default fields and not among the positional ones.\<close>

theorem empty_index_is_no_index:
  "FieldType_init term (PyStr '''') dflt = FieldType_init term PyNone dflt \<and>
   (FieldType_init term (PyStr '''') dflt = Inr f \<longrightarrow>
      f_index f = None \<and>
      filter (\<lambda>x. f_index x = None) [f] = [f] \<and>
      filter (\<lambda>x. f_index x \<noteq> None) [f] = [])"
  by (auto simp: FieldType_init_def split: sum.splits)

theorem empty_index_is_no_index_witness:
  "FieldType_init (Some ''foo'') (PyStr '''') (Some ''bar'')
     = Inr \<lparr> f_term = ''foo'', f_index = None, f_default = Some ''bar'' \<rparr> \<and>
   FieldType_init (Some ''foo'') PyNone (Some ''bar'')
     = Inr \<lparr> f_term = ''foo'', f_index = None, f_default = Some ''bar'' \<rparr>"
proof -
  have run: "FieldType_init (Some ''foo'') (PyStr '''') (Some ''bar'')
     = Inr \<lparr> f_term = ''foo'', f_index = None, f_default = Some ''bar'' \<rparr>"
    by code_simp
  from empty_index_is_no_index
    [of "Some ''foo''" "Some ''bar''"
        "\<lparr> f_term = ''foo'', f_index = None, f_default = Some ''bar'' \<rparr>"]
  show ?thesis using run by simp
qed

subsection \<open>The parsed descriptor\<close>

lemma map_raise_Inr: "map_raise f xs = Inr ys \<longleftrightarrow> list_all2 (\<lambda>x y. f x = Inr y) xs ys"
proof (induction xs arbitrary: ys)
  case Nil
  then show ?case by auto
next
  case (Cons x xs)
  then show ?case by (cases ys) (auto simp: Cons.IH[symmetric] split: sum.splits)
qed

lemma py_less_None: "\<not> py_less a None"
  by (cases a) auto

lemma cmp_neg: "FieldType_cmp y x < 0 \<longleftrightarrow> py_less (f_index y) (f_index x)"
  by (cases "f_index y"; cases "f_index x") (auto simp: FieldType_cmp_def)

lemma sort_fields_Cons: "sort_fields (x # xs) = insort_cmp x (sort_fields xs)"
  by (simp add: sort_fields_def)

lemma insort_all_None:
  "f_index x = None \<Longrightarrow> insort_cmp x ys = x # ys"
  by (cases ys) (auto simp: cmp_neg py_less_None)

lemma sort_fields_all_None:
  "\<forall>x \<in> set xs. f_index x = None \<Longrightarrow> sort_fields xs = xs"
  by (induction xs) (auto simp: sort_fields_Cons insort_all_None sort_fields_def)

lemma mset_insort_cmp: "mset (insort_cmp x ys) = add_mset x (mset ys)"
  by (induction ys) auto

lemma mset_sort_fields: "mset (sort_fields xs) = mset xs"
  by (induction xs) (auto simp: sort_fields_Cons mset_insort_cmp sort_fields_def)

lemma set_insort_cmp: "set (insort_cmp x ys) = insert x (set ys)"
  by (induction ys) auto

lemma py_less_trans: "\<not> py_less b a \<Longrightarrow> \<not> py_less c b \<Longrightarrow> \<not> py_less c a"
  by (cases a; cases b; cases c) auto

lemma py_less_asym: "py_less a b \<Longrightarrow> \<not> py_less b a"
  by (cases a; cases b) auto

lemma sorted_insort_cmp:
  "sorted_wrt (\<lambda>a b. \<not> py_less (f_index b) (f_index a)) ys \<Longrightarrow>
   sorted_wrt (\<lambda>a b. \<not> py_less (f_index b) (f_index a)) (insort_cmp x ys)"
proof (induction ys)
  case Nil
  then show ?case by simp
next
  case (Cons y ys)
  show ?case
  proof (cases "FieldType_cmp y x < 0")
    case True
    then have "py_less (f_index y) (f_index x)" by (simp add: cmp_neg)
    then have "\<not> py_less (f_index x) (f_index y)" by (rule py_less_asym)
    with True Cons show ?thesis by (auto simp: set_insort_cmp)
  next
    case False
    then have yx: "\<not> py_less (f_index y) (f_index x)" by (simp add: cmp_neg)
    have "\<forall>z \<in> set ys. \<not> py_less (f_index z) (f_index x)"
    proof
      fix z assume "z \<in> set ys"
      with Cons.prems have "\<not> py_less (f_index z) (f_index y)" by simp
      with yx show "\<not> py_less (f_index z) (f_index x)" by (rule py_less_trans)
    qed
    with False yx Cons.prems show ?thesis by auto
  qed
qed

lemma sorted_sort_fields:
  "sorted_wrt (\<lambda>a b. \<not> py_less (f_index b) (f_index a)) (sort_fields xs)"
  by (induction xs) (auto simp: sort_fields_Cons sorted_insort_cmp sort_fields_def)

lemma sorted_the_index:
  "sorted_wrt (\<lambda>a b. \<not> py_less (f_index b) (f_index a)) xs \<Longrightarrow>
   \<forall>x \<in> set xs. f_index x \<noteq> None \<Longrightarrow> sorted (map (the \<circ> f_index) xs)"
  by (induction xs) (fastforce simp: not_less)+


lemma CoreFileType_init_Inr:
  assumes "CoreFileType_init doc = Inr core"
  obtains c cs n locs fs where
    "getElementsByTagName doc ''core'' = c # cs"
    "int_of_str (getAttribute c ''ignoreHeaderLines'') = Inr n"
    "map_raise first_child_data (getElementsByTagName (childNodes c) ''location'') = Inr locs"
    "map_raise field_of_element (getElementsByTagName (childNodes c) ''field'') = Inr fs"
    "ignoreHeaderLines core = n"
    "locations core = locs"
    "fields_c core = sort_fields (filter (\<lambda>x. f_index x \<noteq> None) fs)"
    "defaults core = sort_fields (filter (\<lambda>x. f_index x = None) fs)"
  using assms unfolding CoreFileType_init_def
  by (auto split: list.splits sum.splits)

text \<open>C7. For every descriptor, whatever the order of its \<^verbatim>\<open>field\<close> elements, the
  positional fields of the parsed descriptor all have an index and are sorted ascending
  by it; the sort permutes its input and leaves it ordered by \<^verbatim>\<open>__cmp__\<close>.\<close>

theorem positional_fields_sorted:
  "mset (sort_fields xs) = mset xs \<and>
   sorted_wrt (\<lambda>a b. \<not> py_less (f_index b) (f_index a)) (sort_fields xs) \<and>
   (CoreFileType_init doc = Inr core \<longrightarrow>
      (\<forall>f \<in> set (fields_c core). f_index f \<noteq> None) \<and>
      sorted (map (the \<circ> f_index) (fields_c core)))"
proof (intro conjI impI)
  show "mset (sort_fields xs) = mset xs" by (rule mset_sort_fields)
  show "sorted_wrt (\<lambda>a b. \<not> py_less (f_index b) (f_index a)) (sort_fields xs)"
    by (rule sorted_sort_fields)
next
  assume ok: "CoreFileType_init doc = Inr core"
  then obtain fs where fc: "fields_c core = sort_fields (filter (\<lambda>x. f_index x \<noteq> None) fs)"
    by (rule CoreFileType_init_Inr)
  have "set (fields_c core) = set (filter (\<lambda>x. f_index x \<noteq> None) fs)"
    unfolding fc using mset_sort_fields by (metis set_mset_mset)
  then show all: "\<forall>f \<in> set (fields_c core). f_index f \<noteq> None" by simp
  show "sorted (map (the \<circ> f_index) (fields_c core))"
    using sorted_the_index [OF _ all] sorted_sort_fields fc by simp
qed

text \<open>C6. For every descriptor, the default fields of the parsed descriptor are the
  fields built from the \<^verbatim>\<open>field\<close> elements of the core, in document order, that have no
  index: sorting them changes nothing.\<close>

theorem default_fields_document_order:
  assumes "CoreFileType_init doc = Inr core"
  shows "\<exists>c cs fs.
           getElementsByTagName doc ''core'' = c # cs \<and>
           list_all2 (\<lambda>x f. field_of_element x = Inr f)
             (getElementsByTagName (childNodes c) ''field'') fs \<and>
           defaults core = filter (\<lambda>f. f_index f = None) fs"
proof -
  from assms obtain c cs fs where
    c: "getElementsByTagName doc ''core'' = c # cs" and
    fs: "map_raise field_of_element (getElementsByTagName (childNodes c) ''field'') = Inr fs" and
    d: "defaults core = sort_fields (filter (\<lambda>x. f_index x = None) fs)"
    by (rule CoreFileType_init_Inr)
  have "defaults core = filter (\<lambda>f. f_index f = None) fs"
    unfolding d by (rule sort_fields_all_None) simp
  with c fs show ?thesis by (auto simp: map_raise_Inr)
qed

subsection \<open>The reader, the writer and the loops\<close>

lemma dr_next_Inr:
  "dr_next fn items = Inr (d, rest) \<Longrightarrow>
     \<exists>r. records items = r # records rest \<and> d = make_row fn r"
  by (induction fn items rule: dr_next.induct) (auto split: if_splits)

lemma dr_next_Inl:
  "dr_next fn items = Inl e \<Longrightarrow>
     (e = StopIteration \<and> records items = [] \<and> Malformed \<notin> set items) \<or> e = CsvError"
  by (induction fn items rule: dr_next.induct) (auto split: if_splits)

lemma dr_next_CsvError:
  "dr_next fn items = Inl CsvError \<Longrightarrow> Malformed \<in> set items"
  by (induction fn items rule: dr_next.induct) (auto split: if_splits)

lemma dr_next_rest_no_Malformed:
  "dr_next fn items = Inr (d, rest) \<Longrightarrow> Malformed \<notin> set items \<Longrightarrow> Malformed \<notin> set rest"
  by (induction fn items rule: dr_next.induct) (auto split: if_splits)

lemma skip_lines_Inr:
  "skip_lines n fn items = Inr rest \<Longrightarrow>
     records rest = drop n (records items) \<and> n \<le> length (records items)"
proof (induction n arbitrary: items)
  case 0
  then show ?case by simp
next
  case (Suc n)
  then obtain d rest1 where 1: "dr_next fn items = Inr (d, rest1)"
    and 2: "skip_lines n fn rest1 = Inr rest"
    by (auto split: sum.splits)
  from dr_next_Inr [OF 1] obtain r where r: "records items = r # records rest1" by blast
  from Suc.IH [OF 2] r show ?case by simp
qed

lemma skip_lines_short:
  "Malformed \<notin> set items \<Longrightarrow> length (records items) < n \<Longrightarrow>
     skip_lines n fn items = Inl StopIteration"
proof (induction n arbitrary: items)
  case 0
  then show ?case by simp
next
  case (Suc n)
  show ?case
  proof (cases "dr_next fn items")
    case (Inl e)
    from dr_next_Inl [OF Inl] dr_next_CsvError [of fn items] Inl Suc.prems
    show ?thesis by auto
  next
    case (Inr p)
    obtain d rest1 where p: "p = (d, rest1)" by (cases p)
    from dr_next_Inr [OF Inr [unfolded p]] obtain r where
      r: "records items = r # records rest1" by blast
    have "Malformed \<notin> set rest1" using Inr p Suc.prems(1)
      by (induction fn items rule: dr_next.induct) (auto split: if_splits)
    with Suc r Inr p show ?thesis by simp
  qed
qed


lemma skip_lines_enough:
  "Malformed \<notin> set items \<Longrightarrow> n \<le> length (records items) \<Longrightarrow>
     \<exists>rest. skip_lines n fn items = Inr rest \<and> Malformed \<notin> set rest"
proof (induction n arbitrary: items)
  case 0
  then show ?case by simp
next
  case (Suc n)
  show ?case
  proof (cases "dr_next fn items")
    case (Inl e)
    from dr_next_Inl [OF Inl] dr_next_CsvError [of fn items] Inl Suc.prems
    show ?thesis by auto
  next
    case (Inr p)
    obtain d rest1 where p: "p = (d, rest1)" by (cases p)
    from dr_next_Inr [OF Inr [unfolded p]] obtain r where
      r: "records items = r # records rest1" by blast
    have "Malformed \<notin> set rest1"
      using dr_next_rest_no_Malformed Inr p Suc.prems(1) by blast
    moreover have "n \<le> length (records rest1)" using Suc.prems(2) r by simp
    ultimately show ?thesis using Suc.IH Inr p by simp
  qed
qed

lemma dw_writerow_Inr:
  "dw_writerow fn (add_defaults ds (make_row fn r)) dw = Inr dw' \<Longrightarrow>
     dw' = dw @ [data_line fn ds r]"
  by (auto simp: dw_writerow_def data_line_def row_cells_def split: sum.splits)

lemma write_rows_lines:
  "write_rows core fn items dw = (out, e) \<Longrightarrow>
     \<exists>k. out = dw @ map (data_line fn (defaults core)) (take k (records items)) \<and>
         (e = None \<longrightarrow> length (records items) \<le> k)"
proof (induction core fn items dw arbitrary: out e rule: write_rows.induct)
  case (1 core fn items dw)
  show ?case
  proof (cases "dr_next fn items")
    case (Inl e')
    with "1.prems" have out: "out = dw" and e: "e = (if e' = StopIteration then None else Some e')"
      by (simp_all add: write_rows.simps [of core fn items dw])
    from dr_next_Inl [OF Inl] e have "e = None \<longrightarrow> records items = []" by auto
    with out show ?thesis by (intro exI [of _ 0]) simp
  next
    case (Inr p)
    obtain d rest where p: "p = (d, rest)" by (cases p)
    from dr_next_Inr [OF Inr [unfolded p]] obtain r where
      r: "records items = r # records rest" and d: "d = make_row fn r" by blast
    show ?thesis
    proof (cases "dw_writerow fn (add_defaults (defaults core) d) dw")
      case (Inl e')
      with "1.prems" Inr p have "out = dw" "e = Some e'"
        by (simp_all add: write_rows.simps [of core fn items dw])
      then show ?thesis by (intro exI [of _ 0]) simp
    next
      case (Inr dw')
      with "1.prems" \<open>dr_next fn items = Inr p\<close> p
      have run: "write_rows core fn rest dw' = (out, e)"
        by (simp add: write_rows.simps [of core fn items dw])
      from "1.IH" [OF \<open>dr_next fn items = Inr p\<close> p [symmetric] Inr run]
      obtain k where k: "out = dw' @ map (data_line fn (defaults core)) (take k (records rest))"
        and full: "e = None \<longrightarrow> length (records rest) \<le> k" by blast
      from Inr d have "dw' = dw @ [data_line fn (defaults core) r]"
        by (simp add: dw_writerow_Inr)
      with k full r show ?thesis by (intro exI [of _ "Suc k"]) simp
    qed
  qed
qed

lemma map_upds_map:
  "(m(xs [\<mapsto>] map f xs)) k = (if k \<in> set xs then Some (f k) else m k)"
  by (induction xs arbitrary: m) auto

lemma keys_updates:
  "fst ` set (AList.updates ks vs []) = set (take (length vs) ks)"
proof -
  have "fst ` set (AList.updates ks vs []) = dom (map_of (AList.updates ks vs []))"
    by (simp only: dom_map_of_conv_image_fst)
  also have "\<dots> = set (take (length vs) ks)"
    by (simp only: updates_conv' dom_map_upds map_of.simps dom_empty Un_empty_right)
  finally show ?thesis .
qed

lemma dict_to_list_header:
  "dict_to_list fn (header_dict fn) = Inr (map Some fn)"
proof -
  have keys: "fst ` set (AList.updates fn (map Some fn) []) = set fn"
    by (simp add: keys_updates)
  have "filter (\<lambda>k. k \<notin> set (map Some fn))
          (map (Some \<circ> fst) (AList.updates fn (map Some fn) [])) = []"
    using keys by (auto simp: filter_empty_conv)
  moreover have "map (\<lambda>key. case map_of (AList.updates fn (map Some fn) []) key of
                        None \<Rightarrow> Some '''' | Some v \<Rightarrow> v) fn = map Some fn"
    by (simp add: updates_conv' map_upds_map)
  ultimately show ?thesis by (simp add: dict_to_list_def header_dict_def)
qed

lemma write_locations_lines:
  "write_locations w core fn locs dw = (out, e) \<Longrightarrow> fn = fieldnames_of core \<Longrightarrow>
     \<exists>k. out = dw @ take k (all_data_lines w core locs) \<and>
         (e = None \<longrightarrow> out = dw @ all_data_lines w core locs)"
proof (induction locs arbitrary: dw)
  case Nil
  then show ?case by (simp add: all_data_lines_def)
next
  case (Cons loc locs)
  let ?dl = "data_line (fieldnames_of core) (defaults core)"
  let ?N = "nat (ignoreHeaderLines core)"
  let ?A = "map ?dl (drop ?N (records (source_items w core loc)))"
  have D: "all_data_lines w core (loc # locs) = ?A @ all_data_lines w core locs"
    by (simp add: all_data_lines_def)
  show ?case
  proof (cases "readers w loc (fieldsTerminatedBy core) (linesTerminatedBy core)
                  (fieldsEnclosedBy core) True")
    case (Inl e')
    with Cons.prems have "out = dw" "e = Some e'" by simp_all
    then show ?thesis by (intro exI [of _ 0]) simp
  next
    case (Inr items)
    then have items: "source_items w core loc = items" by (simp add: source_items_def)
    show ?thesis
    proof (cases "skip_lines ?N fn items")
      case (Inl e')
      with Cons.prems Inr have "out = dw" "e = Some e'" by simp_all
      then show ?thesis by (intro exI [of _ 0]) simp
    next
      case skip: (Inr rest)
      from skip_lines_Inr [OF skip] have rest: "records rest = drop ?N (records items)" by simp
      obtain dw' e' where wr: "write_rows core fn rest dw = (dw', e')"
        by (cases "write_rows core fn rest dw")
      from write_rows_lines [OF wr] obtain k where
        k: "dw' = dw @ map (data_line fn (defaults core)) (take k (records rest))" and
        full: "e' = None \<longrightarrow> length (records rest) \<le> k" by blast
      show ?thesis
      proof (cases e')
        case (Some x)
        with Cons.prems Inr skip wr have "out = dw'" "e = Some x" by simp_all
        moreover have "map ?dl (take k (records rest))
                         = take (min k (length ?A)) (?A @ all_data_lines w core locs)"
          by (simp add: rest items take_map min_def)
        ultimately show ?thesis using k Cons.prems(2) D
          by (intro exI [of _ "min k (length ?A)"]) simp
      next
        case None
        with full have "take k (records rest) = records rest" by simp
        with k Cons.prems(2) have dw': "dw' = dw @ ?A" by (simp add: rest items)
        from None Cons.prems Inr skip wr have "write_locations w core fn locs dw' = (out, e)"
          by simp
        from Cons.IH [OF this Cons.prems(2)] obtain k2 where
          k2: "out = dw' @ take k2 (all_data_lines w core locs)" and
          f2: "e = None \<longrightarrow> out = dw' @ all_data_lines w core locs" by blast
        have out1: "out = dw @ take (length ?A + k2) (all_data_lines w core (loc # locs))"
          unfolding D k2 dw' by simp
        have out2: "e = None \<longrightarrow> out = dw @ all_data_lines w core (loc # locs)"
          unfolding D using f2 dw' by simp
        from out1 out2 show ?thesis by blast
      qed
    qed
  qed
qed

lemma map_upds_nth:
  "j < length ks \<Longrightarrow> j < length vs \<Longrightarrow> ks ! j \<notin> set (drop (Suc j) ks) \<Longrightarrow>
     (m(ks [\<mapsto>] vs)) (ks ! j) = Some (vs ! j)"
proof (induction ks arbitrary: m vs j)
  case Nil
  then show ?case by simp
next
  case (Cons a as)
  then obtain b bs where vs: "vs = b # bs" by (cases vs) auto
  show ?case
  proof (cases j)
    case 0
    with Cons.prems vs show ?thesis by (simp add: map_upds_apply_nontin)
  next
    case (Suc j')
    have "((m(a \<mapsto> b))(as [\<mapsto>] bs)) (as ! j') = Some (bs ! j')"
      by (rule Cons.IH) (use Cons.prems vs Suc in auto)
    with vs Suc show ?thesis by simp
  qed
qed

lemma entries_add_defaults:
  "entries (add_defaults ds row) =
     fold (\<lambda>d e. AList.update (f_term d) (f_default d) e) ds (entries row)"
  unfolding add_defaults_def by (induction ds arbitrary: row) auto

lemma restkey_add_defaults: "restkey (add_defaults ds row) = restkey row"
  unfolding add_defaults_def by (induction ds arbitrary: row) auto

lemma fold_update_updates:
  "fold (\<lambda>d e. AList.update (f d) (g d) e) ds e = AList.updates (map f ds) (map g ds) e"
  by (induction ds arbitrary: e) (auto simp: AList.updates_def)

lemma map_of_add_defaults:
  "map_of (entries (add_defaults ds row)) =
     (map_of (entries row))(map f_term ds [\<mapsto>] map f_default ds)"
  by (simp add: entries_add_defaults fold_update_updates updates_conv')

lemma fold_update_None:
  "map_of (fold (\<lambda>key d. AList.update key v d) ks d) = (map_of d)(ks [\<mapsto>] replicate (length ks) v)"
proof -
  have "fold (\<lambda>key d. AList.update key v d) ks d
          = AList.updates (map id ks) (map (\<lambda>_. v) ks) d"
    using fold_update_updates [of id "\<lambda>_. v" ks d] by simp
  then show ?thesis by (simp add: updates_conv' map_replicate_const)
qed

lemma map_of_make_row:
  "map_of (entries (make_row fn r)) =
     (if length r < length fn
      then (Map.empty(fn [\<mapsto>] map Some r))
             (drop (length r) fn [\<mapsto>] replicate (length fn - length r) None)
      else Map.empty(fn [\<mapsto>] map Some r))"
  by (auto simp: make_row_def Let_def updates_conv' fold_update_None)

lemma restkey_make_row:
  "restkey (make_row fn r) = (if length fn < length r then Some (drop (length fn) r) else None)"
  by (auto simp: make_row_def Let_def)

lemma dom_make_row: "fst ` set (entries (make_row fn r)) \<subseteq> set fn"
proof -
  have "fst ` set (entries (make_row fn r)) = dom (map_of (entries (make_row fn r)))"
    by (simp only: dom_map_of_conv_image_fst)
  also have "\<dots> \<subseteq> set fn"
    by (auto simp: map_of_make_row dest: in_set_takeD in_set_dropD split: if_splits)
  finally show ?thesis .
qed

lemma dom_add_defaults:
  "fst ` set (entries (add_defaults ds row)) \<subseteq> fst ` set (entries row) \<union> set (map f_term ds)"
proof -
  have "fst ` set (entries (add_defaults ds row)) = dom (map_of (entries (add_defaults ds row)))"
    by (simp only: dom_map_of_conv_image_fst)
  also have "\<dots> \<subseteq> dom (map_of (entries row)) \<union> set (map f_term ds)"
    by (auto simp: map_of_add_defaults dest: in_set_takeD)
  finally show ?thesis by (simp only: dom_map_of_conv_image_fst)
qed

lemma dict_to_list_ok:
  assumes "length r \<le> length fn" and "set (map f_term ds) \<subseteq> set fn"
  shows "dict_to_list fn (add_defaults ds (make_row fn r)) =
           Inr (map (\<lambda>key. case map_of (entries (add_defaults ds (make_row fn r))) key of
                               None \<Rightarrow> Some '''' | Some v \<Rightarrow> v) fn)"
proof -
  have "fst ` set (entries (add_defaults ds (make_row fn r))) \<subseteq> set fn"
    using dom_add_defaults [of ds "make_row fn r"] dom_make_row [of fn r] assms(2) by blast
  then have "filter (\<lambda>k. k \<notin> set (map Some fn))
               (map (Some \<circ> fst) (entries (add_defaults ds (make_row fn r)))) = []"
    by (auto simp: filter_empty_conv)
  moreover have "restkey (add_defaults ds (make_row fn r)) = None"
    using assms(1) by (simp add: restkey_add_defaults restkey_make_row)
  ultimately show ?thesis by (simp add: dict_to_list_def)
qed

lemma dict_to_list_long:
  assumes "length fn < length r"
  shows "dict_to_list fn (add_defaults ds (make_row fn r)) = Inl ValueError"
proof -
  have "restkey (add_defaults ds (make_row fn r)) = Some (drop (length fn) r)"
    using assms by (simp add: restkey_add_defaults restkey_make_row)
  then show ?thesis by (auto simp: dict_to_list_def)
qed

lemma row_cells_nth:
  assumes "length r \<le> length fn" and "set (map f_term ds) \<subseteq> set fn" and "i < length fn"
  shows "row_cells fn ds r ! i =
           (case map_of (entries (add_defaults ds (make_row fn r))) (fn ! i) of
              None \<Rightarrow> Some '''' | Some v \<Rightarrow> v)"
  using assms by (simp add: row_cells_def dict_to_list_ok)

lemma row_cells_default:
  assumes "length r \<le> length fn" and "set (map f_term ds) \<subseteq> set fn"
    and "j < length ds" and "f_term (ds ! j) \<notin> set (map f_term (drop (Suc j) ds))"
    and "i < length fn" and "fn ! i = f_term (ds ! j)"
  shows "row_cells fn ds r ! i = f_default (ds ! j)"
proof -
  have "((map_of (entries (make_row fn r)))(map f_term ds [\<mapsto>] map f_default ds))
          (map f_term ds ! j) = Some (map f_default ds ! j)"
    by (rule map_upds_nth) (use assms(3,4) in \<open>simp_all add: drop_map\<close>)
  then have "map_of (entries (add_defaults ds (make_row fn r))) (fn ! i) = Some (f_default (ds ! j))"
    using assms(3,6) by (simp add: map_of_add_defaults)
  then show ?thesis using assms(1,2,5) by (simp add: row_cells_nth)
qed


theorem positional_fields_sorted_witness:
  "CoreFileType_init example_doc = Inr example_core \<and>
   sorted (map (the \<circ> f_index) (fields_c example_core)) \<and>
   map f_index (fields_c example_core) = [Some 0, Some 1]"
proof -
  have run: "CoreFileType_init example_doc = Inr example_core" by code_simp
  have "map f_index (fields_c example_core) = [Some 0, Some 1]"
    by (simp add: example_core_def)
  with positional_fields_sorted [of "[]" example_doc example_core] run
  show ?thesis by blast
qed

theorem default_fields_document_order_witness:
  "CoreFileType_init example_doc = Inr example_core \<and>
   (\<exists>c cs fs.
      getElementsByTagName example_doc ''core'' = c # cs \<and>
      list_all2 (\<lambda>x f. field_of_element x = Inr f)
        (getElementsByTagName (childNodes c) ''field'') fs \<and>
      defaults example_core = filter (\<lambda>f. f_index f = None) fs)"
proof -
  have run: "CoreFileType_init example_doc = Inr example_core" by code_simp
  from default_fields_document_order [OF run] run show ?thesis by blast
qed

subsection \<open>The output of a run\<close>

lemma convert_lines:
  assumes "writable w destination"
  shows "\<exists>k. fst (convert w core destination) =
               writer_writerow (map Some (fieldnames_of core))
                  # take k (all_data_lines w core (locations core)) \<and>
             (snd (convert w core destination) = None \<longrightarrow>
                k = length (all_data_lines w core (locations core)))"
proof -
  let ?fn = "fieldnames_of core"
  let ?h = "writer_writerow (map Some ?fn)"
  let ?D = "all_data_lines w core (locations core)"
  have hd: "dw_writerow ?fn (header_dict ?fn) [] = Inr [?h]"
    by (simp add: dw_writerow_def dict_to_list_header)
  obtain out e where run: "write_locations w core ?fn (locations core) [?h] = (out, e)"
    by (cases "write_locations w core ?fn (locations core) [?h]")
  from write_locations_lines [OF run refl] obtain k where
    k: "out = [?h] @ take k ?D" and full: "e = None \<longrightarrow> out = [?h] @ ?D" by blast
  have conv: "convert w core destination = (out, e)"
    using assms hd run by (simp add: convert_def Let_def)
  show ?thesis
  proof (cases e)
    case None
    with full conv show ?thesis by (intro exI [of _ "length ?D"]) simp
  next
    case (Some x)
    with k conv show ?thesis by (intro exI [of _ k]) simp
  qed
qed




subsection \<open>Runs that meet no exception\<close>

lemma records_append: "records (xs @ ys) = records xs @ records ys"
  by (induction xs rule: records.induct) auto

lemma dr_next_split:
  "dr_next fn items = Inr (d, rest) \<Longrightarrow>
     \<exists>pre r. items = pre @ rest \<and> records pre = [r]"
proof (induction fn items rule: dr_next.induct)
  case (3 fn row rest')
  show ?case
  proof (cases "row = []")
    case True
    with 3 obtain pre r where "rest' = pre @ rest" "records pre = [r]" by auto
    with True show ?thesis by (intro exI [of _ "Row row # pre"] exI [of _ r]) simp
  next
    case False
    with 3 show ?thesis by (intro exI [of _ "[Row row]"] exI [of _ row]) simp
  qed
qed simp_all

lemma skip_lines_split:
  "skip_lines n fn items = Inr rest \<Longrightarrow>
     \<exists>pre. items = pre @ rest \<and> length (records pre) = n"
proof (induction n arbitrary: items)
  case 0
  then show ?case by simp
next
  case (Suc n)
  then obtain d rest1 where 1: "dr_next fn items = Inr (d, rest1)"
    and 2: "skip_lines n fn rest1 = Inr rest"
    by (auto split: sum.splits)
  from dr_next_split [OF 1] obtain pre1 r where p1: "items = pre1 @ rest1" "records pre1 = [r]"
    by blast
  from Suc.IH [OF 2] obtain pre2 where p2: "rest1 = pre2 @ rest" "length (records pre2) = n"
    by blast
  from p1 p2 show ?case
    by (intro exI [of _ "pre1 @ pre2"]) (simp add: records_append)
qed

lemma write_rows_ok:
  "Malformed \<notin> set items \<Longrightarrow> list_all (\<lambda>r. length r \<le> length fn) (records items) \<Longrightarrow>
   set (map f_term (defaults core)) \<subseteq> set fn \<Longrightarrow>
     write_rows core fn items dw = (dw @ map (data_line fn (defaults core)) (records items), None)"
proof (induction core fn items dw rule: write_rows.induct)
  case (1 core fn items dw)
  show ?case
  proof (cases "dr_next fn items")
    case (Inl e)
    with dr_next_Inl [OF Inl] dr_next_CsvError [of fn items] "1.prems"(1)
    have "e = StopIteration" "records items = []" by auto
    with Inl show ?thesis by (simp add: write_rows.simps [of core fn items dw])
  next
    case (Inr p)
    obtain d rest where p: "p = (d, rest)" by (cases p)
    from dr_next_Inr [OF Inr [unfolded p]] obtain r where
      r: "records items = r # records rest" and d: "d = make_row fn r" by blast
    have fit: "length r \<le> length fn" using "1.prems"(2) r by simp
    have w: "dw_writerow fn (add_defaults (defaults core) d) dw
               = Inr (dw @ [data_line fn (defaults core) r])"
      using fit "1.prems"(3) d
      by (simp add: dw_writerow_def dict_to_list_ok data_line_def row_cells_def)
    have nm: "Malformed \<notin> set rest"
      using dr_next_rest_no_Malformed Inr p "1.prems"(1) by blast
    have "write_rows core fn rest (dw @ [data_line fn (defaults core) r])
            = ((dw @ [data_line fn (defaults core) r])
                 @ map (data_line fn (defaults core)) (records rest), None)"
      by (rule "1.IH" [OF Inr p [symmetric] w nm]) (use "1.prems" r in simp_all)
    with Inr p w r show ?thesis by (simp add: write_rows.simps [of core fn items dw])
  qed
qed

lemma write_locations_ok:
  "\<forall>location \<in> set locs. location_ok w core location \<Longrightarrow>
     write_locations w core (fieldnames_of core) locs dw
       = (dw @ all_data_lines w core locs, None)"
proof (induction locs arbitrary: dw)
  case Nil
  then show ?case by (simp add: all_data_lines_def)
next
  case (Cons loc locs)
  let ?fn = "fieldnames_of core"
  let ?N = "nat (ignoreHeaderLines core)"
  from Cons.prems have "location_ok w core loc" by simp
  then obtain items where
    rd: "readers w loc (fieldsTerminatedBy core) (linesTerminatedBy core)
           (fieldsEnclosedBy core) True = Inr items" and
    nm: "Malformed \<notin> set items" and
    en: "?N \<le> length (records items)" and
    fit: "list_all (\<lambda>row. length row \<le> length ?fn) (drop ?N (records items))"
    by (auto simp: location_ok_def split: sum.splits)
  from rd have items: "source_items w core loc = items" by (simp add: source_items_def)
  from skip_lines_enough [OF nm en, of ?fn] obtain rest where
    sk: "skip_lines ?N ?fn items = Inr rest" and nm': "Malformed \<notin> set rest" by blast
  from skip_lines_Inr [OF sk] have rest: "records rest = drop ?N (records items)" by simp
  have sub: "set (map f_term (defaults core)) \<subseteq> set ?fn"
    by (simp add: fieldnames_of_def Let_def)
  have wr: "write_rows core ?fn rest dw
              = (dw @ map (data_line ?fn (defaults core)) (records rest), None)"
    by (rule write_rows_ok [OF nm' _ sub]) (use fit rest in simp)
  have "write_locations w core ?fn locs (dw @ map (data_line ?fn (defaults core)) (records rest))
          = ((dw @ map (data_line ?fn (defaults core)) (records rest))
               @ all_data_lines w core locs, None)"
    by (rule Cons.IH) (use Cons.prems in simp)
  moreover have "all_data_lines w core (loc # locs)
                   = map (data_line ?fn (defaults core)) (records rest)
                       @ all_data_lines w core locs"
    by (simp add: all_data_lines_def items rest)
  ultimately show ?case using rd sk wr by simp
qed

lemma length_all_data_lines:
  "length (all_data_lines w core locs) =
     (\<Sum>location\<leftarrow>locs. length (records (source_items w core location))
                          - nat (ignoreHeaderLines core))"
  by (simp add: all_data_lines_def length_concat comp_def)

text \<open>C2, as the code has it. When the descriptor is parsed and the destination can be
  opened: if every location meets \<open>location_ok\<close>, the run ends without an exception and
  writes the header and then \<open>all_data_lines\<close>; every run that ends without an exception
  has written exactly these data rows, grouped by location in the order of the
  descriptor; and their number is the sum, over the locations, of the number of
  non-blank records minus the number of header lines skipped, a negative
  \<^verbatim>\<open>ignoreHeaderLines\<close> counting as zero.\<close>

theorem data_rows_count:
  assumes "metafiles w metafile = Inr doc" and "CoreFileType_init doc = Inr core"
    and "writable w destination"
  shows "((\<forall>location \<in> set (locations core). location_ok w core location) \<longrightarrow>
            writecsv w metafile destination =
              (writer_writerow (map Some (fieldnames_of core))
                 # all_data_lines w core (locations core), None)) \<and>
         (snd (writecsv w metafile destination) = None \<longrightarrow>
            tl (fst (writecsv w metafile destination)) = all_data_lines w core (locations core)) \<and>
         length (all_data_lines w core (locations core)) =
           (\<Sum>location\<leftarrow>locations core.
              length (records (source_items w core location)) - nat (ignoreHeaderLines core))"
proof (intro conjI impI)
  have run: "writecsv w metafile destination = convert w core destination"
    using assms(1,2) by (simp add: writecsv_def)
  have hd: "dw_writerow (fieldnames_of core) (header_dict (fieldnames_of core)) []
              = Inr [writer_writerow (map Some (fieldnames_of core))]"
    by (simp add: dw_writerow_def dict_to_list_header)
  {
    assume "\<forall>location \<in> set (locations core). location_ok w core location"
    from write_locations_ok [OF this] hd assms(3)
    show "writecsv w metafile destination =
            (writer_writerow (map Some (fieldnames_of core))
               # all_data_lines w core (locations core), None)"
      unfolding run by (simp add: convert_def Let_def)
  }
  {
    assume "snd (writecsv w metafile destination) = None"
    with convert_lines [OF assms(3), of core]
    show "tl (fst (writecsv w metafile destination)) = all_data_lines w core (locations core)"
      unfolding run by auto
  }
  show "length (all_data_lines w core (locations core)) =
          (\<Sum>location\<leftarrow>locations core.
             length (records (source_items w core location)) - nat (ignoreHeaderLines core))"
    by (rule length_all_data_lines)
qed

theorem data_rows_count_witness:
  "metafiles example_world ''meta.xml'' = Inr example_doc \<and>
   CoreFileType_init example_doc = Inr example_core \<and>
   writable example_world ''out.csv'' \<and>
   list_all (location_ok example_world example_core) (locations example_core) \<and>
   snd (writecsv example_world ''meta.xml'' ''out.csv'') = None \<and>
   length (tl (fst (writecsv example_world ''meta.xml'' ''out.csv''))) = 3"
proof -
  have 1: "metafiles example_world ''meta.xml'' = Inr example_doc"
    by (simp add: example_world_def)
  have 2: "CoreFileType_init example_doc = Inr example_core" by code_simp
  have 3: "writable example_world ''out.csv''" by (simp add: example_world_def)
  have 4: "list_all (location_ok example_world example_core) (locations example_core)"
    by code_simp
  then have 5: "\<forall>location \<in> set (locations example_core).
                  location_ok example_world example_core location"
    by (simp add: list_all_iff)
  have 6: "length (records (source_items example_world example_core ''taxa1.txt'')) = 3"
    by code_simp
  have 7: "length (records (source_items example_world example_core ''taxa2.txt'')) = 2"
    by code_simp
  have 8: "locations example_core = [''taxa1.txt'', ''taxa2.txt'']"
          "ignoreHeaderLines example_core = 1"
    by (simp_all add: example_core_def)
  from data_rows_count [OF 1 2 3] 5 6 7 8
  have "snd (writecsv example_world ''meta.xml'' ''out.csv'') = None \<and>
        length (tl (fst (writecsv example_world ''meta.xml'' ''out.csv''))) = 3"
    by simp
  with 1 2 3 4 show ?thesis by blast
qed

text \<open>The claim as stated fails when a source has a blank line: the first source of the
  example yields four records to the reader, the second two, so with one header line
  skipped in each the claim gives four data rows; three are written.\<close>

theorem data_rows_count_counterexample:
  "metafiles example_world ''meta.xml'' = Inr example_doc \<and>
   CoreFileType_init example_doc = Inr example_core \<and>
   snd (writecsv example_world ''meta.xml'' ''out.csv'') = None \<and>
   length (tl (fst (writecsv example_world ''meta.xml'' ''out.csv''))) = 3 \<and>
   (\<Sum>location\<leftarrow>locations example_core.
      int (length (source_items example_world example_core location))
        - ignoreHeaderLines example_core) = 4"
proof -
  have 1: "metafiles example_world ''meta.xml'' = Inr example_doc"
    by (simp add: example_world_def)
  have 2: "CoreFileType_init example_doc = Inr example_core" by code_simp
  have 3: "snd (writecsv example_world ''meta.xml'' ''out.csv'') = None" by code_simp
  have 4: "length (tl (fst (writecsv example_world ''meta.xml'' ''out.csv''))) = 3"
    by code_simp
  have 5: "(\<Sum>location\<leftarrow>locations example_core.
      int (length (source_items example_world example_core location))
        - ignoreHeaderLines example_core) = 4"
    by code_simp
  from 1 2 3 4 5 show ?thesis by blast
qed

text \<open>C8, as the code has it. For a location whose reader raises no error, with \<open>n\<close>
  the number of header lines (a negative \<^verbatim>\<open>ignoreHeaderLines\<close> counting as zero): if the
  location has at least \<open>n\<close> non-blank records, the skipping loop consumes a prefix of
  the source that holds exactly its first \<open>n\<close> non-blank records, and the rows loop then
  meets every later non-blank record, in order, and writes one data row for each when
  none of them has more cells than there are field names; blank records are passed
  over wherever they stand. If the location has fewer than \<open>n\<close> non-blank records, the
  skipping loop ends the run with \<^verbatim>\<open>StopIteration\<close>.\<close>

theorem header_lines_skipped:
  assumes "Malformed \<notin> set items"
  shows "(nat (ignoreHeaderLines core) \<le> length (records items) \<longrightarrow>
           (\<exists>pre rest.
              items = pre @ rest \<and>
              skip_lines (nat (ignoreHeaderLines core)) (fieldnames_of core) items = Inr rest \<and>
              records pre = take (nat (ignoreHeaderLines core)) (records items) \<and>
              records rest = drop (nat (ignoreHeaderLines core)) (records items) \<and>
              (list_all (\<lambda>row. length row \<le> length (fieldnames_of core)) (records rest) \<longrightarrow>
                 write_rows core (fieldnames_of core) rest dw =
                   (dw @ map (data_line (fieldnames_of core) (defaults core))
                           (drop (nat (ignoreHeaderLines core)) (records items)), None)))) \<and>
         (length (records items) < nat (ignoreHeaderLines core) \<longrightarrow>
            skip_lines (nat (ignoreHeaderLines core)) (fieldnames_of core) items
              = Inl StopIteration)"
proof (intro conjI impI)
  let ?n = "nat (ignoreHeaderLines core)"
  let ?fn = "fieldnames_of core"
  {
    assume en: "?n \<le> length (records items)"
    from skip_lines_enough [OF assms en, of ?fn] obtain rest where
      sk: "skip_lines ?n ?fn items = Inr rest" and nm: "Malformed \<notin> set rest" by blast
    from skip_lines_Inr [OF sk] have rest: "records rest = drop ?n (records items)" by simp
    from skip_lines_split [OF sk] obtain pre where
      pre: "items = pre @ rest" "length (records pre) = ?n" by blast
    have "records items = records pre @ records rest"
      using pre(1) records_append by metis
    then have tk: "records pre = take ?n (records items)" using pre(2) by simp
    have sub: "set (map f_term (defaults core)) \<subseteq> set ?fn"
      by (simp add: fieldnames_of_def Let_def)
    have "list_all (\<lambda>row. length row \<le> length ?fn) (records rest) \<longrightarrow>
            write_rows core ?fn rest dw =
              (dw @ map (data_line ?fn (defaults core)) (drop ?n (records items)), None)"
      using write_rows_ok [OF nm _ sub, of dw] rest by simp
    with pre(1) sk tk rest
    show "\<exists>pre rest.
            items = pre @ rest \<and>
            skip_lines ?n ?fn items = Inr rest \<and>
            records pre = take ?n (records items) \<and>
            records rest = drop ?n (records items) \<and>
            (list_all (\<lambda>row. length row \<le> length ?fn) (records rest) \<longrightarrow>
               write_rows core ?fn rest dw =
                 (dw @ map (data_line ?fn (defaults core)) (drop ?n (records items)), None))"
      by blast
  }
  {
    assume "length (records items) < ?n"
    with assms show "skip_lines ?n ?fn items = Inl StopIteration"
      by (rule skip_lines_short)
  }
qed

theorem header_lines_skipped_witness:
  "Malformed \<notin> set example_taxa1 \<and>
   nat (ignoreHeaderLines example_core) \<le> length (records example_taxa1) \<and>
   (\<exists>pre rest.
      example_taxa1 = pre @ rest \<and>
      skip_lines (nat (ignoreHeaderLines example_core)) (fieldnames_of example_core)
        example_taxa1 = Inr rest \<and>
      records pre = take (nat (ignoreHeaderLines example_core)) (records example_taxa1) \<and>
      records rest = drop (nat (ignoreHeaderLines example_core)) (records example_taxa1))"
proof -
  have 1: "Malformed \<notin> set example_taxa1" by (simp add: example_taxa1_def)
  have 2: "nat (ignoreHeaderLines example_core) \<le> length (records example_taxa1)"
    by code_simp
  from header_lines_skipped [OF 1, of example_core "[]"] 2
  have "\<exists>pre rest.
      example_taxa1 = pre @ rest \<and>
      skip_lines (nat (ignoreHeaderLines example_core)) (fieldnames_of example_core)
        example_taxa1 = Inr rest \<and>
      records pre = take (nat (ignoreHeaderLines example_core)) (records example_taxa1) \<and>
      records rest = drop (nat (ignoreHeaderLines example_core)) (records example_taxa1)"
    by blast
  with 1 2 show ?thesis by blast
qed

text \<open>The claim as stated fails when a blank line stands before the header line: with
  one header line to skip, the loop discards the first two records of the source, and
  the only data row written is that of the third.\<close>

theorem header_lines_skipped_counterexample:
  "CoreFileType_init
     (core_doc ''1'' [''taxa.txt'']
        [Element ''field'' [(''index'', ''0''), (''term'', ''name'')] [],
         Element ''field'' [(''index'', ''1''), (''term'', ''id'')] []])
   = Inr \<lparr> rowType = '''', fieldsTerminatedBy = '','', linesTerminatedBy = [CHR 0x0A],
           fieldsEnclosedBy = [CHR 0x22], encoding = '''', ignoreHeaderLines = 1,
           dateFormat = '''', locations = [''taxa.txt''],
           fields_c = [\<lparr> f_term = ''name'', f_index = Some 0, f_default = None \<rparr>,
                       \<lparr> f_term = ''id'', f_index = Some 1, f_default = None \<rparr>],
           defaults = [] \<rparr> \<and>
   skip_lines 1 [''name'', ''id'']
     [Row [], Row [''name'', ''id''], Row [''Felis catus'', ''T3'']]
   = Inr [Row [''Felis catus'', ''T3'']] \<and>
   writecsv
     (single_source_world
        (core_doc ''1'' [''taxa.txt'']
           [Element ''field'' [(''index'', ''0''), (''term'', ''name'')] [],
            Element ''field'' [(''index'', ''1''), (''term'', ''id'')] []])
        [Row [], Row [''name'', ''id''], Row [''Felis catus'', ''T3'']])
     ''meta.xml'' ''out.csv''
   = ([writer_writerow [Some ''name'', Some ''id''],
       writer_writerow [Some ''Felis catus'', Some ''T3'']], None)"
  by code_simp

subsection \<open>The cells of a data row\<close>



lemma defaults_in_fieldnames: "set (map f_term (defaults core)) \<subseteq> set (fieldnames_of core)"
  by (simp add: fieldnames_of_def Let_def)

lemma row_written:
  "length row \<le> length (fieldnames_of core) \<Longrightarrow>
     dict_to_list (fieldnames_of core)
       (add_defaults (defaults core) (make_row (fieldnames_of core) row))
     = Inr (row_cells (fieldnames_of core) (defaults core) row)"
  using dict_to_list_ok [OF _ defaults_in_fieldnames, of row core]
  by (simp add: row_cells_def)

text \<open>C3, as the code has it. For every record that is written (it has no more cells
  than there are field names) and every default field whose name is not the name of a
  later default field, the cell of its column, and of every column of that name,
  handed to the writer is the default value of the field, whatever the record holds;
  an absent default is \<^verbatim>\<open>None\<close>, written as the empty string.\<close>

theorem default_columns:
  assumes "j < length (defaults core)"
    and "f_term (defaults core ! j) \<notin> set (map f_term (drop (Suc j) (defaults core)))"
    and "length row \<le> length (fieldnames_of core)"
  shows "dict_to_list (fieldnames_of core)
           (add_defaults (defaults core) (make_row (fieldnames_of core) row))
         = Inr (row_cells (fieldnames_of core) (defaults core) row) \<and>
         fieldnames_of core ! (length (fields_c core) + j) = f_term (defaults core ! j) \<and>
         (\<forall>i < length (fieldnames_of core).
            fieldnames_of core ! i = f_term (defaults core ! j) \<longrightarrow>
            row_cells (fieldnames_of core) (defaults core) row ! i
              = f_default (defaults core ! j))"
proof (intro conjI allI impI)
  show "dict_to_list (fieldnames_of core)
          (add_defaults (defaults core) (make_row (fieldnames_of core) row))
        = Inr (row_cells (fieldnames_of core) (defaults core) row)"
    using assms(3) by (rule row_written)
  show "fieldnames_of core ! (length (fields_c core) + j) = f_term (defaults core ! j)"
    using assms(1) by (simp add: fieldnames_of_def Let_def nth_append)
next
  fix i
  assume "i < length (fieldnames_of core)"
    and "fieldnames_of core ! i = f_term (defaults core ! j)"
  with assms defaults_in_fieldnames [of core]
  show "row_cells (fieldnames_of core) (defaults core) row ! i = f_default (defaults core ! j)"
    by (intro row_cells_default) simp_all
qed


theorem default_columns_witness:
  "0 < length (defaults example_core) \<and>
   f_term (defaults example_core ! 0)
     \<notin> set (map f_term (drop (Suc 0) (defaults example_core))) \<and>
   length [''Panthera leo'', ''T1''] \<le> length (fieldnames_of example_core) \<and>
   fieldnames_of example_core ! 2 = ''basisOfRecord'' \<and>
   row_cells (fieldnames_of example_core) (defaults example_core) [''Panthera leo'', ''T1''] ! 2
     = Some ''HumanObservation''"
proof -
  have 1: "0 < length (defaults example_core)" by code_simp
  have 2: "f_term (defaults example_core ! 0)
             \<notin> set (map f_term (drop (Suc 0) (defaults example_core)))" by code_simp
  have 3: "length [''Panthera leo'', ''T1''] \<le> length (fieldnames_of example_core)"
    by code_simp
  have 4: "fieldnames_of example_core ! 2 = f_term (defaults example_core ! 0)" by code_simp
  have 5: "2 < length (fieldnames_of example_core)" by code_simp
  have 6: "f_default (defaults example_core ! 0) = Some ''HumanObservation''" by code_simp
  have 7: "fieldnames_of example_core ! 2 = ''basisOfRecord''" by code_simp
  from default_columns [OF 1 2 3] 4 5 6
  have "row_cells (fieldnames_of example_core) (defaults example_core)
          [''Panthera leo'', ''T1''] ! 2 = Some ''HumanObservation''"
    by metis
  with 1 2 3 7 show ?thesis by blast
qed

text \<open>The claim as stated fails when two default fields have the same name: the
  dictionary of a row has one entry for the name, set to the default of the later
  field, and both columns are written with it.\<close>

theorem default_columns_counterexample:
  "CoreFileType_init
     (core_doc ''0'' [''taxa.txt'']
        [Element ''field'' [(''index'', ''0''), (''term'', ''name'')] [],
         Element ''field'' [(''term'', ''basisOfRecord''),
                            (''default'', ''HumanObservation'')] [],
         Element ''field'' [(''term'', ''basisOfRecord''),
                            (''default'', ''PreservedSpecimen'')] []])
   = Inr \<lparr> rowType = '''', fieldsTerminatedBy = '','', linesTerminatedBy = [CHR 0x0A],
           fieldsEnclosedBy = [CHR 0x22], encoding = '''', ignoreHeaderLines = 0,
           dateFormat = '''', locations = [''taxa.txt''],
           fields_c = [\<lparr> f_term = ''name'', f_index = Some 0, f_default = None \<rparr>],
           defaults =
             [\<lparr> f_term = ''basisOfRecord'', f_index = None,
                 f_default = Some ''HumanObservation'' \<rparr>,
              \<lparr> f_term = ''basisOfRecord'', f_index = None,
                 f_default = Some ''PreservedSpecimen'' \<rparr>] \<rparr> \<and>
   writecsv
     (single_source_world
        (core_doc ''0'' [''taxa.txt'']
           [Element ''field'' [(''index'', ''0''), (''term'', ''name'')] [],
            Element ''field'' [(''term'', ''basisOfRecord''),
                               (''default'', ''HumanObservation'')] [],
            Element ''field'' [(''term'', ''basisOfRecord''),
                               (''default'', ''PreservedSpecimen'')] []])
        [Row [''Felis catus'']])
     ''meta.xml'' ''out.csv''
   = ([writer_writerow [Some ''name'', Some ''basisOfRecord'', Some ''basisOfRecord''],
       writer_writerow [Some ''Felis catus'', Some ''PreservedSpecimen'',
                        Some ''PreservedSpecimen'']], None)"
  by code_simp



subsection \<open>The header-skip count\<close>








subsection \<open>The name of a field\<close>

lemma split_not_Nil: "split c s \<noteq> []"
  by (induction s) (auto split: list.splits)

lemma split_two: "c \<in> set s \<Longrightarrow> \<exists>w v vs. split c s = w # v # vs"
proof (induction s)
  case Nil
  then show ?case by simp
next
  case (Cons x xs)
  show ?case
  proof (cases "x = c")
    case True
    obtain v vs where "split c xs = v # vs" using split_not_Nil [of c xs] by (cases "split c xs") auto
    with True show ?thesis by simp
  next
    case False
    with Cons.prems have "c \<in> set xs" by simp
    from Cons.IH [OF this] obtain w v vs where "split c xs = w # v # vs" by blast
    with False show ?thesis by simp
  qed
qed

lemma last_split_Cons_sep: "last (split c (c # ys)) = last (split c ys)"
  using split_not_Nil [of c ys] by simp

lemma last_split_append: "last (split c (xs @ c # ys)) = last (split c ys)"
proof (induction xs)
  case Nil
  show ?case using last_split_Cons_sep by simp
next
  case (Cons x xs)
  show ?case
  proof (cases "x = c")
    case True
    then show ?thesis using Cons.IH split_not_Nil [of c "xs @ c # ys"] by simp
  next
    case False
    have "c \<in> set (xs @ c # ys)" by simp
    from split_two [OF this] obtain w v vs where sp: "split c (xs @ c # ys) = w # v # vs" by blast
    with False have "split c (x # xs @ c # ys) = (x # w) # v # vs" by simp
    then have "last (split c (x # xs @ c # ys)) = last (split c (xs @ c # ys))"
      using sp by simp
    with Cons.IH show ?thesis by simp
  qed
qed

lemma takeWhile_sep: "c \<notin> set xs \<Longrightarrow> takeWhile (\<lambda>x. x \<noteq> c) (xs @ c # ys) = xs"
  by (induction xs) auto

lemma find_notin: "c \<notin> set s \<Longrightarrow> find c s = - 1"
  by (simp add: find_def find_from_def)

lemma find_first: "c \<notin> set xs \<Longrightarrow> find c (xs @ c # ys) = int (length xs)"
  by (simp add: find_def find_from_def takeWhile_sep)

lemma find_from_notin: "c \<notin> set (drop n s) \<Longrightarrow> find_from c s n = - 1"
  by (simp add: find_from_def)

lemma find_from_first:
  "drop n s = xs @ c # ys \<Longrightarrow> c \<notin> set xs \<Longrightarrow> find_from c s n = int (n + length xs)"
  by (simp add: find_from_def takeWhile_sep)

lemma splitnetloc_host:
  assumes "CHR ''/'' \<notin> set h" and "CHR ''?'' \<notin> set h" and "CHR ''#'' \<notin> set h"
    and "CHR ''?'' \<notin> set r" and "CHR ''#'' \<notin> set r"
  shows "splitnetloc (''//'' @ h @ ''/'' @ r) 2 = (h, ''/'' @ r)"
proof -
  define u where "u = ''//'' @ h @ ''/'' @ r"
  have d: "drop 2 u = h @ CHR ''/'' # r" by (simp add: u_def)
  have len: "length u = 3 + length h + length r" by (simp add: u_def)
  have f1: "find_from (CHR ''/'') u 2 = int (2 + length h)"
    using d assms(1) by (rule find_from_first)
  have f2: "find_from (CHR ''?'') u 2 = - 1"
    by (rule find_from_notin) (use assms(2,4) d in simp)
  have f3: "find_from (CHR ''#'') u 2 = - 1"
    by (rule find_from_notin) (use assms(3,5) d in simp)
  have dd: "drop (Suc (Suc (length h))) u = CHR ''/'' # r"
    by (simp add: u_def)
  have n: "nat (2 + int (length h)) = Suc (Suc (length h))" by linarith
  have "splitnetloc u 2 = (h, CHR ''/'' # r)"
    by (simp add: splitnetloc_def Let_def f1 f2 f3 len d dd n)
  then show ?thesis by (simp add: u_def)
qed

lemma urlsplit_rest_host:
  assumes "CHR ''/'' \<notin> set h" and "CHR ''?'' \<notin> set h" and "CHR ''#'' \<notin> set h"
    and "CHR ''['' \<notin> set h" and "CHR '']'' \<notin> set h"
    and "CHR ''?'' \<notin> set r" and "CHR ''#'' \<notin> set r"
  shows "urlsplit_rest sch (''//'' @ h @ ''/'' @ r) =
           Inr \<lparr> sr_scheme = sch, sr_netloc = h, sr_path = ''/'' @ r,
                 sr_query = '''', sr_fragment = '''' \<rparr>"
proof -
  have "take 2 (''//'' @ h @ ''/'' @ r) = ''//''" by simp
  moreover note splitnetloc_host [OF assms(1,2,3,6,7)]
  ultimately show ?thesis
    unfolding urlsplit_rest_def using assms(4,5,6,7) by simp
qed

lemma urlsplit_rest_plain:
  assumes "take 2 t \<noteq> ''//''" and "CHR ''?'' \<notin> set t" and "CHR ''#'' \<notin> set t"
  shows "urlsplit_rest sch t =
           Inr \<lparr> sr_scheme = sch, sr_netloc = '''', sr_path = t,
                 sr_query = '''', sr_fragment = '''' \<rparr>"
  unfolding urlsplit_rest_def using assms by simp

lemma colon_not_scheme_char: "CHR '':'' \<notin> set scheme_chars"
  by (simp add: scheme_chars_def)

lemma urlsplit_uri:
  assumes "s \<noteq> []" and "set s \<subseteq> set scheme_chars"
    and "CHR ''/'' \<notin> set h" and "CHR ''?'' \<notin> set h" and "CHR ''#'' \<notin> set h"
    and "CHR ''['' \<notin> set h" and "CHR '']'' \<notin> set h"
    and "CHR ''?'' \<notin> set r" and "CHR ''#'' \<notin> set r"
  shows "urlsplit (s @ ''://'' @ h @ ''/'' @ r) =
           Inr \<lparr> sr_scheme = lower s, sr_netloc = h, sr_path = ''/'' @ r,
                 sr_query = '''', sr_fragment = '''' \<rparr>"
proof -
  define rest where "rest = ''//'' @ h @ ''/'' @ r"
  define t where "t = s @ CHR '':'' # rest"
  have t: "s @ ''://'' @ h @ ''/'' @ r = t" by (simp add: t_def rest_def)
  have ns: "CHR '':'' \<notin> set s" using assms(2) colon_not_scheme_char by blast
  have i: "find (CHR '':'') t = int (length s)"
    unfolding t_def using ns by (rule find_first)
  have tk: "take (length s) t = s" by (simp add: t_def)
  have dr: "drop (Suc (length s)) t = rest" by (simp add: t_def)
  have nd: "\<exists>c \<in> set rest. c \<notin> set ''0123456789''"
    by (rule bexI [of _ "CHR ''/''"]) (simp_all add: rest_def)
  have sc: "\<forall>c \<in> set s. c \<in> set scheme_chars" using assms(2) by blast
  have pos: "0 < length s" using assms(1) by simp
  have dr1: "drop (length s + 1) t = rest" by (simp add: t_def)
  have e: "urlsplit t =
      (if 0 < int (length s) then
         (if s = ''http'' then urlsplit_rest (lower s) rest
          else if \<forall>c \<in> set s. c \<in> set scheme_chars
          then (if rest = [] \<or> (\<exists>c \<in> set rest. c \<notin> set ''0123456789'')
                then urlsplit_rest (lower s) rest
                else urlsplit_rest '''' t)
          else urlsplit_rest '''' t)
       else urlsplit_rest '''' t)"
    unfolding urlsplit_def Let_def i nat_int tk dr1 ..
  have ipos: "0 < int (length s)" using pos by simp
  have "urlsplit t = urlsplit_rest (lower s) rest"
  proof (cases "s = ''http''")
    case True
    show ?thesis unfolding e using ipos True by (simp only: if_True simp_thms)
  next
    case False
    show ?thesis unfolding e Let_def using ipos False sc nd
      by (simp only: if_P if_not_P simp_thms)
  qed
  also have "\<dots> = Inr \<lparr> sr_scheme = lower s, sr_netloc = h, sr_path = ''/'' @ r,
                          sr_query = '''', sr_fragment = '''' \<rparr>"
    unfolding rest_def by (rule urlsplit_rest_host [OF assms(3-9)])
  finally show ?thesis unfolding t .
qed

lemma urlparse_path_uri:
  assumes "s \<noteq> []" and "set s \<subseteq> set scheme_chars"
    and "CHR ''/'' \<notin> set h" and "CHR ''?'' \<notin> set h" and "CHR ''#'' \<notin> set h"
    and "CHR ''['' \<notin> set h" and "CHR '']'' \<notin> set h"
    and "CHR ''?'' \<notin> set r" and "CHR ''#'' \<notin> set r" and "CHR '';'' \<notin> set r"
  shows "urlparse_path (Some (s @ ''://'' @ h @ ''/'' @ r)) = Inr (''/'' @ r)"
proof -
  have "CHR '';'' \<notin> set (''/'' @ r)" using assms(10) by simp
  then show ?thesis
    unfolding urlparse_path_def
    by (simp only: option.case urlsplit_uri [OF assms(1-9)] sum.case SplitResult.simps
          simp_thms if_False)
qed

lemma urlparse_path_plain:
  assumes "CHR '':'' \<notin> set t" and "take 2 t \<noteq> ''//''"
    and "CHR ''?'' \<notin> set t" and "CHR ''#'' \<notin> set t" and "CHR '';'' \<notin> set t"
  shows "urlparse_path (Some t) = Inr t"
proof -
  have "urlsplit t = urlsplit_rest '''' t"
    using find_notin [OF assms(1)] by (simp add: urlsplit_def Let_def)
  then have "urlsplit t = Inr \<lparr> sr_scheme = '''', sr_netloc = '''', sr_path = t,
                               sr_query = '''', sr_fragment = '''' \<rparr>"
    using urlsplit_rest_plain [OF assms(2,3,4)] by simp
  then show ?thesis
    unfolding urlparse_path_def using assms(5) by simp
qed

lemma FieldType_init_term:
  "FieldType_init term index dflt = Inr f \<Longrightarrow>
     \<exists>p. urlparse_path term = Inr p \<and> f_term f = last (split (CHR ''/'') p)"
  by (auto simp: FieldType_init_def split: sum.splits if_splits)

lemma last_segment_uri:
  "last (split (CHR ''/'') (''/'' @ r)) = last (split (CHR ''/'') (s @ ''://'' @ h @ ''/'' @ r))"
proof -
  have "s @ ''://'' @ h @ ''/'' @ r = (s @ ''://'' @ h) @ CHR ''/'' # r" by simp
  then have "last (split (CHR ''/'') (s @ ''://'' @ h @ ''/'' @ r)) = last (split (CHR ''/'') r)"
    by (simp only: last_split_append)
  moreover have "last (split (CHR ''/'') (''/'' @ r)) = last (split (CHR ''/'') r)"
    using last_split_Cons_sep [of "CHR ''/''" r] by simp
  ultimately show ?thesis by simp
qed

text \<open>C4, as the code has it. The name of a field is the final \<^verbatim>\<open>/\<close>-separated segment
  of the path that \<^verbatim>\<open>urlparse\<close> finds in the term. It is the final segment of the term
  itself for a term with none of \<^verbatim>\<open>: ? # ;\<close> that does not begin with \<^verbatim>\<open>//\<close>, and for a
  full URI \<^verbatim>\<open>scheme://host/path\<close> whose scheme is made of scheme characters, whose host
  has none of \<^verbatim>\<open>/ ? # [ ]\<close> and whose path has none of \<^verbatim>\<open>? # ;\<close>; such terms are
  accepted by the constructor.\<close>

theorem field_name_last_segment:
  "(FieldType_init term index dflt = Inr f \<longrightarrow>
      (\<exists>p. urlparse_path term = Inr p \<and> f_term f = last (split (CHR ''/'') p))) \<and>
   (CHR '':'' \<notin> set t \<and> take 2 t \<noteq> ''//'' \<and>
    CHR ''?'' \<notin> set t \<and> CHR ''#'' \<notin> set t \<and> CHR '';'' \<notin> set t \<longrightarrow>
      FieldType_init (Some t) PyNone dflt =
        Inr \<lparr> f_term = last (split (CHR ''/'') t), f_index = None, f_default = dflt \<rparr> \<and>
      (FieldType_init (Some t) index dflt = Inr f \<longrightarrow>
         f_term f = last (split (CHR ''/'') t))) \<and>
   (s \<noteq> [] \<and> set s \<subseteq> set scheme_chars \<and>
    CHR ''/'' \<notin> set h \<and> CHR ''?'' \<notin> set h \<and> CHR ''#'' \<notin> set h \<and>
    CHR ''['' \<notin> set h \<and> CHR '']'' \<notin> set h \<and>
    CHR ''?'' \<notin> set r \<and> CHR ''#'' \<notin> set r \<and> CHR '';'' \<notin> set r \<longrightarrow>
      FieldType_init (Some (s @ ''://'' @ h @ ''/'' @ r)) PyNone dflt =
        Inr \<lparr> f_term = last (split (CHR ''/'') (s @ ''://'' @ h @ ''/'' @ r)),
              f_index = None, f_default = dflt \<rparr> \<and>
      (FieldType_init (Some (s @ ''://'' @ h @ ''/'' @ r)) index dflt = Inr f \<longrightarrow>
         f_term f = last (split (CHR ''/'') (s @ ''://'' @ h @ ''/'' @ r))))"
proof (intro conjI impI)
  assume "FieldType_init term index dflt = Inr f"
  then show "\<exists>p. urlparse_path term = Inr p \<and> f_term f = last (split (CHR ''/'') p)"
    by (rule FieldType_init_term)
next
  assume a: "CHR '':'' \<notin> set t \<and> take 2 t \<noteq> ''//'' \<and>
    CHR ''?'' \<notin> set t \<and> CHR ''#'' \<notin> set t \<and> CHR '';'' \<notin> set t"
  then have p: "urlparse_path (Some t) = Inr t" by (intro urlparse_path_plain) simp_all
  show "FieldType_init (Some t) PyNone dflt =
          Inr \<lparr> f_term = last (split (CHR ''/'') t), f_index = None, f_default = dflt \<rparr>"
    by (simp add: FieldType_init_def p)
  assume "FieldType_init (Some t) index dflt = Inr f"
  from FieldType_init_term [OF this] p
  show "f_term f = last (split (CHR ''/'') t)" by simp
next
  assume a: "s \<noteq> [] \<and> set s \<subseteq> set scheme_chars \<and>
    CHR ''/'' \<notin> set h \<and> CHR ''?'' \<notin> set h \<and> CHR ''#'' \<notin> set h \<and>
    CHR ''['' \<notin> set h \<and> CHR '']'' \<notin> set h \<and>
    CHR ''?'' \<notin> set r \<and> CHR ''#'' \<notin> set r \<and> CHR '';'' \<notin> set r"
  define u where "u = s @ ''://'' @ h @ ''/'' @ r"
  from a have "urlparse_path (Some (s @ ''://'' @ h @ ''/'' @ r)) = Inr (''/'' @ r)"
    by (intro urlparse_path_uri) simp_all
  then have p: "urlparse_path (Some u) = Inr (''/'' @ r)" by (simp only: u_def)
  have l: "last (split (CHR ''/'') (''/'' @ r)) = last (split (CHR ''/'') u)"
    unfolding u_def by (rule last_segment_uri)
  have l': "last (split (CHR ''/'') (CHR ''/'' # r)) = last (split (CHR ''/'') u)"
    using l by (simp del: split.simps)
  have "FieldType_init (Some u) PyNone dflt =
          Inr \<lparr> f_term = last (split (CHR ''/'') u), f_index = None, f_default = dflt \<rparr>"
    by (simp add: FieldType_init_def p l' del: split.simps)
  then show "FieldType_init (Some (s @ ''://'' @ h @ ''/'' @ r)) PyNone dflt =
          Inr \<lparr> f_term = last (split (CHR ''/'') (s @ ''://'' @ h @ ''/'' @ r)),
                f_index = None, f_default = dflt \<rparr>"
    by (simp only: u_def)
  assume "FieldType_init (Some (s @ ''://'' @ h @ ''/'' @ r)) index dflt = Inr f"
  then have "FieldType_init (Some u) index dflt = Inr f" by (simp only: u_def)
  from FieldType_init_term [OF this] p l'
  have "f_term f = last (split (CHR ''/'') u)" by (simp del: split.simps)
  then show "f_term f = last (split (CHR ''/'') (s @ ''://'' @ h @ ''/'' @ r))"
    by (simp only: u_def)
qed

theorem field_name_last_segment_witness:
  "FieldType_init (Some ''scientificName'') PyNone None
     = Inr \<lparr> f_term = ''scientificName'', f_index = None, f_default = None \<rparr> \<and>
   FieldType_init (Some (''http'' @ ''://'' @ ''ns.example'' @ ''/'' @ ''Taxon/scientificName''))
       PyNone None
     = Inr \<lparr> f_term = ''scientificName'', f_index = None, f_default = None \<rparr> \<and>
   ''http'' @ ''://'' @ ''ns.example'' @ ''/'' @ ''Taxon/scientificName''
     = ''http://ns.example/Taxon/scientificName''"
proof -
  have plain: "CHR '':'' \<notin> set ''scientificName'' \<and> take 2 ''scientificName'' \<noteq> ''//'' \<and>
    CHR ''?'' \<notin> set ''scientificName'' \<and> CHR ''#'' \<notin> set ''scientificName'' \<and>
    CHR '';'' \<notin> set ''scientificName''"
    by simp
  have uri: "''http'' \<noteq> [] \<and> set ''http'' \<subseteq> set scheme_chars \<and>
    CHR ''/'' \<notin> set ''ns.example'' \<and> CHR ''?'' \<notin> set ''ns.example'' \<and>
    CHR ''#'' \<notin> set ''ns.example'' \<and>
    CHR ''['' \<notin> set ''ns.example'' \<and> CHR '']'' \<notin> set ''ns.example'' \<and>
    CHR ''?'' \<notin> set ''Taxon/scientificName'' \<and> CHR ''#'' \<notin> set ''Taxon/scientificName'' \<and>
    CHR '';'' \<notin> set ''Taxon/scientificName''"
    by (simp add: scheme_chars_def)
  have l1: "last (split (CHR ''/'') ''scientificName'') = ''scientificName''" by code_simp
  have l2: "last (split (CHR ''/'')
              (''http'' @ ''://'' @ ''ns.example'' @ ''/'' @ ''Taxon/scientificName''))
            = ''scientificName''" by code_simp
  have e: "''http'' @ ''://'' @ ''ns.example'' @ ''/'' @ ''Taxon/scientificName''
             = ''http://ns.example/Taxon/scientificName''" by simp
  note inst = field_name_last_segment
    [where t = "''scientificName''" and dflt = None and s = "''http''"
       and h = "''ns.example''" and r = "''Taxon/scientificName''"]
  from inst plain have 1: "FieldType_init (Some ''scientificName'') PyNone None
     = Inr \<lparr> f_term = last (split (CHR ''/'') ''scientificName''), f_index = None,
             f_default = None \<rparr>"
    by blast
  from inst uri have 2:
    "FieldType_init (Some (''http'' @ ''://'' @ ''ns.example'' @ ''/'' @ ''Taxon/scientificName''))
       PyNone None
     = Inr \<lparr> f_term = last (split (CHR ''/'')
                 (''http'' @ ''://'' @ ''ns.example'' @ ''/'' @ ''Taxon/scientificName'')),
             f_index = None, f_default = None \<rparr>"
    by blast
  from 1 2 e show ?thesis unfolding l1 l2 by blast
qed

text \<open>The claim as stated fails for a term with a fragment: the name is the last
  segment of the path, which ends before the \<^verbatim>\<open>#\<close>, not the last segment of the term.\<close>

theorem field_name_last_segment_counterexample:
  "FieldType_init (Some ''http://example.org/terms#name'') PyNone None
     = Inr \<lparr> f_term = ''terms'', f_index = None, f_default = None \<rparr> \<and>
   last (split (CHR ''/'') ''http://example.org/terms#name'') = ''terms#name''"
  by code_simp

end
